theory Spec2Isabelle
  imports Complex_Main
begin

section \<open>JavaScript numbers\<close>

text \<open>
  The editor computes with JavaScript numbers. A number is modelled as a real with the
  three special values of IEEE arithmetic that the code can produce and test for:
  \<open>NaN\<close> (the result of a failed \<open>parseFloat\<close>, of \<open>0/0\<close>, of \<open>Infinity - Infinity\<close>)
  and the two infinities (the result of a division by zero). The sign of zero is not
  modelled. The operators below compute finite results exactly; the conversions between
  percent and pixels, whose accuracy a claim is about, round each result to a double
  (see \<open>toDouble\<close>).
\<close>

datatype number = NaN | NInf | Fin real | PInf

instantiation number :: "{plus, minus, times, inverse, ord}"
begin

fun plus_number :: "number \<Rightarrow> number \<Rightarrow> number" where
  "plus_number NaN _ = NaN"
| "plus_number _ NaN = NaN"
| "plus_number PInf NInf = NaN"
| "plus_number NInf PInf = NaN"
| "plus_number PInf _ = PInf"
| "plus_number _ PInf = PInf"
| "plus_number NInf _ = NInf"
| "plus_number _ NInf = NInf"
| "plus_number (Fin a) (Fin b) = Fin (a + b)"

fun minus_number :: "number \<Rightarrow> number \<Rightarrow> number" where
  "minus_number NaN _ = NaN"
| "minus_number _ NaN = NaN"
| "minus_number PInf PInf = NaN"
| "minus_number NInf NInf = NaN"
| "minus_number PInf _ = PInf"
| "minus_number _ NInf = PInf"
| "minus_number NInf _ = NInf"
| "minus_number _ PInf = NInf"
| "minus_number (Fin a) (Fin b) = Fin (a - b)"

fun times_number :: "number \<Rightarrow> number \<Rightarrow> number" where
  "times_number NaN _ = NaN"
| "times_number _ NaN = NaN"
| "times_number (Fin a) (Fin b) = Fin (a * b)"
| "times_number (Fin a) PInf = (if a = 0 then NaN else if 0 < a then PInf else NInf)"
| "times_number (Fin a) NInf = (if a = 0 then NaN else if 0 < a then NInf else PInf)"
| "times_number PInf (Fin b) = (if b = 0 then NaN else if 0 < b then PInf else NInf)"
| "times_number NInf (Fin b) = (if b = 0 then NaN else if 0 < b then NInf else PInf)"
| "times_number PInf PInf = PInf"
| "times_number NInf NInf = PInf"
| "times_number PInf NInf = NInf"
| "times_number NInf PInf = NInf"

fun divide_number :: "number \<Rightarrow> number \<Rightarrow> number" where
  "divide_number NaN _ = NaN"
| "divide_number _ NaN = NaN"
| "divide_number (Fin a) (Fin b) =
     (if b = 0 then (if a = 0 then NaN else if 0 < a then PInf else NInf)
      else Fin (a / b))"
| "divide_number (Fin a) PInf = Fin 0"
| "divide_number (Fin a) NInf = Fin 0"
| "divide_number PInf (Fin b) = (if b < 0 then NInf else PInf)"
| "divide_number NInf (Fin b) = (if b < 0 then PInf else NInf)"
| "divide_number PInf PInf = NaN"
| "divide_number PInf NInf = NaN"
| "divide_number NInf PInf = NaN"
| "divide_number NInf NInf = NaN"

fun inverse_number :: "number \<Rightarrow> number" where
  "inverse_number NaN = NaN"
| "inverse_number (Fin a) = (if a = 0 then PInf else Fin (1 / a))"
| "inverse_number PInf = Fin 0"
| "inverse_number NInf = Fin 0"

text \<open>The comparisons \<open><\<close> and \<open><=\<close> of JavaScript: false as soon as one side is \<open>NaN\<close>.\<close>

fun less_number :: "number \<Rightarrow> number \<Rightarrow> bool" where
  "less_number (Fin a) (Fin b) = (a < b)"
| "less_number NInf (Fin b) = True"
| "less_number NInf PInf = True"
| "less_number (Fin a) PInf = True"
| "less_number _ _ = False"

fun less_eq_number :: "number \<Rightarrow> number \<Rightarrow> bool" where
  "less_eq_number (Fin a) (Fin b) = (a \<le> b)"
| "less_eq_number NInf (Fin b) = True"
| "less_eq_number NInf PInf = True"
| "less_eq_number NInf NInf = True"
| "less_eq_number (Fin a) PInf = True"
| "less_eq_number PInf PInf = True"
| "less_eq_number _ _ = False"

instance ..

end

definition isNaN :: "number \<Rightarrow> bool" where
  "isNaN v = (v = NaN)"

text \<open>\<open>Math.max\<close> and \<open>Math.min\<close> of two arguments: \<open>NaN\<close> if either is \<open>NaN\<close>.\<close>

fun Math_max :: "number \<Rightarrow> number \<Rightarrow> number" where
  "Math_max NaN _ = NaN"
| "Math_max _ NaN = NaN"
| "Math_max a b = (if a < b then b else a)"

fun Math_min :: "number \<Rightarrow> number \<Rightarrow> number" where
  "Math_min NaN _ = NaN"
| "Math_min _ NaN = NaN"
| "Math_min a b = (if b < a then b else a)"

text \<open>\<open>Math.round\<close>: the nearest integer, a tie going towards plus infinity.\<close>

fun Math_round :: "number \<Rightarrow> number" where
  "Math_round (Fin a) = Fin (of_int \<lfloor>a + 1 / 2\<rfloor>)"
| "Math_round v = v"

fun Math_sqrt :: "number \<Rightarrow> number" where
  "Math_sqrt (Fin a) = (if a < 0 then NaN else Fin (sqrt a))"
| "Math_sqrt PInf = PInf"
| "Math_sqrt _ = NaN"

text \<open>\<open>Math.pow(b, 2)\<close>, the only exponent the editor uses.\<close>

fun Math_pow_2 :: "number \<Rightarrow> number" where
  "Math_pow_2 NaN = NaN"
| "Math_pow_2 (Fin a) = Fin (a\<^sup>2)"
| "Math_pow_2 _ = PInf"

text \<open>
  \<open>v.toFixed(1)\<close> returns a decimal string with one fractional digit: the tenth nearest
  to \<open>v\<close>, the larger in magnitude on a tie, and the plain \<open>toString\<close> of \<open>v\<close> from
  \<open>10\<^sup>2\<^sup>1\<close> on. The string is represented by the number it denotes.
\<close>

fun toFixed_1 :: "number \<Rightarrow> number" where
  "toFixed_1 (Fin a) =
     (if 10 ^ 21 \<le> \<bar>a\<bar> then Fin a
      else if a < 0 then Fin (- (of_int \<lfloor>10 * (- a) + 1 / 2\<rfloor> / 10))
      else Fin (of_int \<lfloor>10 * a + 1 / 2\<rfloor> / 10))"
| "toFixed_1 v = v"


section \<open>Rounding to double precision\<close>

text \<open>
  Where a claim is about the accuracy of a computation, the rounding of the code's
  doubles is modelled: \<open>toDouble\<close> is the IEEE 754 binary64 value nearest to a real,
  a tie going to the even significand, with gradual underflow and with overflow to an
  infinity. \<open>round_even\<close> rounds to the nearest integer, a tie going to the even one;
  \<open>twoPow k\<close> is \<open>2\<^sup>k\<close>; \<open>binade x\<close> is the exponent \<open>e\<close> with
  \<open>2\<^sup>e \<le> |x| < 2\<^sup>e\<^sup>+\<^sup>1\<close>. \<open>asDouble\<close> rounds the finite values of a number.
\<close>

definition round_even :: "real \<Rightarrow> int" where
  "round_even x =
     (let f = \<lfloor>x\<rfloor>; d = x - of_int f
      in if d < 1 / 2 then f else if 1 / 2 < d then f + 1 else if even f then f else f + 1)"

definition twoPow :: "int \<Rightarrow> real" where
  "twoPow k = (if 0 \<le> k then 2 ^ nat k else 1 / 2 ^ nat (- k))"

definition binade :: "real \<Rightarrow> int" where
  "binade x = \<lfloor>log 2 \<bar>x\<bar>\<rfloor>"

definition toDouble :: "real \<Rightarrow> number" where
  "toDouble x =
     (if x = 0 then Fin 0
      else
        (let q = twoPow (max (binade x - 52) (- 1074));
             r = of_int (round_even (x / q)) * q
         in if 2 ^ 1024 \<le> \<bar>r\<bar> then (if 0 < x then PInf else NInf) else Fin r))"

fun asDouble :: "number \<Rightarrow> number" where
  "asDouble (Fin a) = toDouble a"
| "asDouble v = v"


section \<open>JavaScript strings\<close>

text \<open>
  A string is the list of its UTF-16 code units. \<open>str\<close> turns an ASCII literal into
  such a list.
\<close>

type_synonym jsstring = "nat list"

definition str :: "string \<Rightarrow> jsstring" where
  "str s = map of_char s"

text \<open>
  The white space of \<open>String.prototype.trim\<close>, of the regular expression class \<open>\s\<close>
  and of the prefix that \<open>parseFloat\<close> skips: the WhiteSpace and LineTerminator code
  points of ECMAScript.
\<close>

definition isWhiteSpace :: "nat \<Rightarrow> bool" where
  "isWhiteSpace c =
     (c \<in> set [9, 10, 11, 12, 13, 32, 160, 5760, 8232, 8233, 8239, 8287, 12288, 65279]
      \<or> (8192 \<le> c \<and> c \<le> 8202))"

definition isToken :: "nat \<Rightarrow> bool" where
  "isToken c = (if isWhiteSpace c then False else True)"

definition trim :: "jsstring \<Rightarrow> jsstring" where
  "trim s = rev (dropWhile isWhiteSpace (rev (dropWhile isWhiteSpace s)))"

text \<open>
  \<open>s.split(/\s+/)\<close>: the pieces of \<open>s\<close> between the maximal runs of white space. A leading
  or trailing run leaves an empty piece, and the empty string gives one empty piece.
\<close>

function split_ws :: "jsstring \<Rightarrow> jsstring list" where
  "split_ws s =
     (let piece = takeWhile isToken s; rest = dropWhile isToken s
      in if rest = [] then [piece] else piece # split_ws (dropWhile isWhiteSpace (tl rest)))"
  by pat_completeness auto
termination
proof (relation "measure length")
  show "wf (measure length)" by simp
next
  fix s :: jsstring and piece rest
  assume r: "rest = dropWhile isToken s" and ne: "rest \<noteq> []"
  have "length (dropWhile isWhiteSpace (tl rest)) \<le> length (tl rest)"
    by (rule length_dropWhile_le)
  also have "\<dots> < length rest" using ne by (cases rest) simp_all
  also have "\<dots> \<le> length s" unfolding r by (rule length_dropWhile_le)
  finally show "(dropWhile isWhiteSpace (tl rest), s) \<in> measure length" by simp
qed

declare split_ws.simps [simp del]

definition isDigit :: "nat \<Rightarrow> bool" where
  "isDigit c = (48 \<le> c \<and> c \<le> 57)"

definition digitsValue :: "jsstring \<Rightarrow> nat" where
  "digitsValue ds = foldl (\<lambda>a c. 10 * a + (c - 48)) 0 ds"

definition signPart :: "jsstring \<Rightarrow> bool \<times> jsstring" where
  "signPart t =
     (case t of
        [] \<Rightarrow> (False, [])
      | c # r \<Rightarrow> if c = 45 then (True, r) else if c = 43 then (False, r) else (False, t))"

definition exponentPart :: "jsstring \<Rightarrow> int" where
  "exponentPart r =
     (case r of
        [] \<Rightarrow> 0
      | c # r1 \<Rightarrow>
          if c = 101 \<or> c = 69 then
            (let ds = takeWhile isDigit (snd (signPart r1))
             in if ds = [] then 0
                else if fst (signPart r1) then - int (digitsValue ds)
                else int (digitsValue ds))
          else 0)"

definition scale10 :: "real \<Rightarrow> int \<Rightarrow> real" where
  "scale10 m e = (if 0 \<le> e then m * 10 ^ nat e else m / 10 ^ nat (- e))"

text \<open>
  \<open>parseFloat\<close>: skip leading white space, then take the longest prefix that is a
  StrDecimalLiteral (a sign, then \<open>Infinity\<close> or digits with an optional fraction and
  an optional exponent) and return its value; \<open>NaN\<close> when no prefix is one. Whatever
  follows the prefix is ignored.
\<close>

definition parseFloat :: "jsstring \<Rightarrow> number" where
  "parseFloat s =
     (let t = signPart (dropWhile isWhiteSpace s); neg = fst t; u = snd t
      in if take 8 u = str ''Infinity'' then (if neg then NInf else PInf)
         else
           (let ip = takeWhile isDigit u;
                r1 = dropWhile isDigit u;
                hasDot = (case r1 of [] \<Rightarrow> False | c # _ \<Rightarrow> c = 46);
                fp = (if hasDot then takeWhile isDigit (tl r1) else []);
                r2 = (if hasDot then dropWhile isDigit (tl r1) else r1)
            in if ip = [] \<and> fp = [] then NaN
               else
                 (let v = scale10 (real (digitsValue (ip @ fp)) / 10 ^ length fp)
                                  (exponentPart r2)
                  in Fin (if neg then - v else v))))"


section \<open>The data model (types.ts and the state of ImageEditor)\<close>

datatype Position = BottomLeft | BottomRight | TopLeft | TopRight

record ScaleBarSettings =
  show_bar :: bool
  lengthValue :: number
  lengthUnit :: jsstring
  barHeight :: number
  fontSize :: number
  fontColor :: jsstring
  barColor :: jsstring
  position :: Position
  overlayPadding :: number

record CalibrationData =
  pixels :: number
  knownDistance :: number
  unit :: jsstring

record CropRect =
  crop_x :: number
  crop_y :: number
  crop_width :: number
  crop_height :: number

datatype AppState = UPLOAD | CALIBRATE | EDIT

record SemAnalysisResult =
  suggestedCropY :: number
  detectedScaleText :: "jsstring option"

text \<open>The loaded \<open>HTMLImageElement\<close>: its width and height are unsigned integers.\<close>

record Image =
  img_width :: nat
  img_height :: nat

type_synonym Point = "number \<times> number"

text \<open>The \<open>useState\<close> cells of the component, in the order of their declaration.\<close>

record Editor =
  imageObj :: "Image option"
  crop :: CropRect
  mode :: AppState
  usePercent :: bool
  calStart :: "Point option"
  calEnd :: "Point option"
  calibration :: CalibrationData
  cursorPos :: "Point option"
  settings :: ScaleBarSettings

text \<open>The micro sign followed by \<open>m\<close>.\<close>

definition micrometre :: jsstring where
  "micrometre = [181, 109]"

definition initialEditor :: Editor where
  "initialEditor =
     \<lparr>imageObj = None,
      crop = \<lparr>crop_x = Fin 0, crop_y = Fin 0, crop_width = Fin 0, crop_height = Fin 0\<rparr>,
      mode = CALIBRATE,
      usePercent = False,
      calStart = None,
      calEnd = None,
      calibration = \<lparr>pixels = Fin 0, knownDistance = Fin 10, unit = micrometre\<rparr>,
      cursorPos = None,
      settings =
        \<lparr>show_bar = True, lengthValue = Fin 5, lengthUnit = micrometre, barHeight = Fin 8,
         fontSize = Fin 24, fontColor = str ''#ffffff'', barColor = str ''#ffffff'',
         position = BottomRight, overlayPadding = Fin 40\<rparr>\<rparr>"


section \<open>The suggestion service (analyzeSemImage)\<close>

text \<open>
  What the \<open>try\<close> block of \<open>analyzeSemImage\<close> meets: the request is rejected (any
  exception of the call), or it answers with a response whose \<open>text\<close> may be undefined.
  \<open>JSON.parse\<close> is a parameter: \<open>None\<close> when it throws on the text.
\<close>

datatype GenerateOutcome = Rejected | Response "jsstring option"

definition fallbackResult :: SemAnalysisResult where
  "fallbackResult = \<lparr>suggestedCropY = Fin 0, detectedScaleText = None\<rparr>"

definition analyzeSemImage ::
  "(jsstring \<Rightarrow> SemAnalysisResult option) \<Rightarrow> GenerateOutcome \<Rightarrow> SemAnalysisResult" where
  "analyzeSemImage JSON_parse outcome =
     (case outcome of
        Rejected \<Rightarrow> fallbackResult
      | Response None \<Rightarrow> fallbackResult
      | Response (Some text) \<Rightarrow>
          if text = [] then fallbackResult
          else (case JSON_parse text of None \<Rightarrow> fallbackResult | Some r \<Rightarrow> r))"


section \<open>Image load\<close>

text \<open>
  The \<open>img.onload\<close> callback of the first effect: it stores the image, sets the default
  crop and, when a scale text came with the suggestion, seeds the calibration and the
  new bar from it.
\<close>

definition imageOnload :: "Image \<Rightarrow> number \<Rightarrow> jsstring option \<Rightarrow> Editor \<Rightarrow> Editor" where
  "imageOnload img suggestedY initialScaleText st =
     (let st1 = st
            \<lparr>imageObj := Some img,
             crop :=
               \<lparr>crop_x = Fin 0, crop_y = Fin 0,
                crop_width = Fin (real (img_width img)),
                crop_height =
                  (if Fin 0 < suggestedY then suggestedY else Fin (real (img_height img)))\<rparr>\<rparr>
      in case initialScaleText of
           None \<Rightarrow> st1
         | Some text \<Rightarrow>
             if text = [] then st1
             else
               (let parts = split_ws (trim text)
                in if 2 \<le> length parts then
                     (let val = parseFloat (parts ! 0); u = parts ! 1
                      in if isNaN val then st1
                         else st1
                           \<lparr>calibration := (calibration st1)\<lparr>knownDistance := val, unit := u\<rparr>,
                            settings :=
                              (settings st1)\<lparr>lengthUnit := u, lengthValue := val / Fin 2\<rparr>\<rparr>)
                   else st1))"


section \<open>Calibration\<close>

text \<open>
  The native point of a pointer event: the client position relative to the origin of
  the displayed canvas, scaled per axis by the ratio of the canvas size to the
  displayed size.
\<close>

record DisplayRect =
  rect_left :: number
  rect_top :: number
  rect_width :: number
  rect_height :: number

definition nativePoint :: "number \<Rightarrow> number \<Rightarrow> DisplayRect \<Rightarrow> number \<Rightarrow> number \<Rightarrow> Point" where
  "nativePoint canvas_width canvas_height rect clientX clientY =
     (let scaleX = canvas_width / rect_width rect;
          scaleY = canvas_height / rect_height rect
      in ((clientX - rect_left rect) * scaleX, (clientY - rect_top rect) * scaleY))"

text \<open>
  \<open>handleCanvasClick\<close>, given the native point \<open>(x, y)\<close> that the handler computes from
  the event with \<open>nativePoint\<close>.
\<close>

definition handleCanvasClick :: "Point \<Rightarrow> Editor \<Rightarrow> Editor" where
  "handleCanvasClick p st =
     (if mode st = CALIBRATE then
        (case calStart st of
           None \<Rightarrow> st\<lparr>calStart := Some p\<rparr>
         | Some s \<Rightarrow>
             (case calEnd st of
                None \<Rightarrow>
                  st\<lparr>calEnd := Some p,
                     calibration := (calibration st)
                       \<lparr>pixels :=
                          Math_sqrt (Math_pow_2 (fst p - fst s) + Math_pow_2 (snd p - snd s))\<rparr>\<rparr>
              | Some e \<Rightarrow> st\<lparr>calStart := Some p, calEnd := None\<rparr>))
      else st)"

text \<open>The \<open>onClick\<close> of the button "Reset Points".\<close>

definition resetPoints :: "Editor \<Rightarrow> Editor" where
  "resetPoints st =
     st\<lparr>calStart := None, calEnd := None,
        calibration := (calibration st)\<lparr>pixels := Fin 0\<rparr>\<rparr>"

text \<open>
  The \<open>onChange\<close> of the field "Real Length", given the number that \<open>Number\<close> makes of
  the field's text, and the two buttons that set the mode.
\<close>

definition setKnownDistance :: "number \<Rightarrow> Editor \<Rightarrow> Editor" where
  "setKnownDistance v st = st\<lparr>calibration := (calibration st)\<lparr>knownDistance := v\<rparr>\<rparr>"

definition setMode :: "AppState \<Rightarrow> Editor \<Rightarrow> Editor" where
  "setMode m st = st\<lparr>mode := m\<rparr>"

definition setUsePercent :: "bool \<Rightarrow> Editor \<Rightarrow> Editor" where
  "setUsePercent b st = st\<lparr>usePercent := b\<rparr>"

text \<open>The \<open>onChange\<close> of the select "Position".\<close>

definition setPosition :: "Position \<Rightarrow> Editor \<Rightarrow> Editor" where
  "setPosition pos st = st\<lparr>settings := (settings st)\<lparr>position := pos\<rparr>\<rparr>"


section \<open>Crop insets\<close>

text \<open>
  \<open>getDisplayValue\<close> and \<open>parseInputValue\<close>, with the rounding of each quotient and
  product to a double, and of the number that \<open>parseFloat\<close> reads from the text.
\<close>

definition getDisplayValue :: "Editor \<Rightarrow> number \<Rightarrow> number \<Rightarrow> number" where
  "getDisplayValue st val mx =
     (if usePercent st then toFixed_1 (asDouble (asDouble (val / mx) * Fin 100))
      else Math_round val)"

definition parseInputValue :: "Editor \<Rightarrow> jsstring \<Rightarrow> number \<Rightarrow> number" where
  "parseInputValue st val mx =
     (let num = asDouble (parseFloat val)
      in if isNaN num then Fin 0
         else if usePercent st then Math_round (asDouble (asDouble (num / Fin 100) * mx))
         else Math_round num)"

datatype InsetType = Top | Bottom | Left | Right

text \<open>The value \<open>val\<close> that \<open>updateCropInset\<close> computes before it updates the crop.\<close>

definition insetValue :: "Editor \<Rightarrow> Image \<Rightarrow> InsetType \<Rightarrow> jsstring \<Rightarrow> number" where
  "insetValue st img ty valueStr =
     (if ty = Top \<or> ty = Bottom then parseInputValue st valueStr (Fin (real (img_height img)))
      else parseInputValue st valueStr (Fin (real (img_width img))))"

text \<open>The function passed to \<open>setCrop\<close>.\<close>

definition nextCrop :: "Image \<Rightarrow> InsetType \<Rightarrow> number \<Rightarrow> CropRect \<Rightarrow> CropRect" where
  "nextCrop img ty val prev =
     (case ty of
        Top \<Rightarrow>
          (let bottomEdge = crop_y prev + crop_height prev;
               ny = Math_max (Fin 0) (Math_min val (bottomEdge - Fin 10))
           in prev\<lparr>crop_y := ny, crop_height := bottomEdge - ny\<rparr>)
      | Bottom \<Rightarrow>
          (let newHeight = Fin (real (img_height img)) - crop_y prev - val
           in prev\<lparr>crop_height := Math_max (Fin 10) newHeight\<rparr>)
      | Left \<Rightarrow>
          (let rightEdge = crop_x prev + crop_width prev;
               nx = Math_max (Fin 0) (Math_min val (rightEdge - Fin 10))
           in prev\<lparr>crop_x := nx, crop_width := rightEdge - nx\<rparr>)
      | Right \<Rightarrow>
          (let newWidth = Fin (real (img_width img)) - crop_x prev - val
           in prev\<lparr>crop_width := Math_max (Fin 10) newWidth\<rparr>))"

definition updateCropInset :: "InsetType \<Rightarrow> jsstring \<Rightarrow> Editor \<Rightarrow> Editor" where
  "updateCropInset ty valueStr st =
     (case imageObj st of
        None \<Rightarrow> st
      | Some img \<Rightarrow> st\<lparr>crop := nextCrop img ty (insetValue st img ty valueStr) (crop st)\<rparr>)"

text \<open>\<open>imageObj?.height || 1\<close>: 1 when there is no image or its height is 0.\<close>

definition heightOr1 :: "Editor \<Rightarrow> number" where
  "heightOr1 st =
     (case imageObj st of
        None \<Rightarrow> Fin 1
      | Some img \<Rightarrow> if img_height img = 0 then Fin 1 else Fin (real (img_height img)))"

text \<open>The \<open>value\<close> shown by the field "Bottom Inset".\<close>

definition bottomInsetDisplay :: "Editor \<Rightarrow> number" where
  "bottomInsetDisplay st =
     getDisplayValue st
       (case imageObj st of
          None \<Rightarrow> Fin 0
        | Some img \<Rightarrow>
            Fin (real (img_height img)) - (crop_y (crop st) + crop_height (crop st)))
       (heightOr1 st)"

text \<open>The bounds that the specification asks of a crop rectangle.\<close>

definition cropWithinBounds :: "Image \<Rightarrow> CropRect \<Rightarrow> bool" where
  "cropWithinBounds img c =
     (Fin 10 \<le> crop_width c \<and> Fin 10 \<le> crop_height c
      \<and> Fin 0 \<le> crop_x c \<and> Fin 0 \<le> crop_y c
      \<and> crop_x c + crop_width c \<le> Fin (real (img_width img))
      \<and> crop_y c + crop_height c \<le> Fin (real (img_height img)))"


section \<open>The scale bar\<close>

text \<open>The four arguments of a \<open>ctx.fillRect\<close> call.\<close>

record FillRect =
  rect_x :: number
  rect_y :: number
  rect_w :: number
  rect_h :: number

definition pixelsPerUnit :: "CalibrationData \<Rightarrow> number" where
  "pixelsPerUnit cal = pixels cal / knownDistance cal"

definition barPixelWidth :: "Editor \<Rightarrow> number" where
  "barPixelWidth st = lengthValue (settings st) * pixelsPerUnit (calibration st)"

text \<open>
  Step 4 of \<open>draw\<close>: the \<open>fillRect\<close> call that paints the bar on the preview, \<open>None\<close> when
  the step is skipped.
\<close>

definition draw_scaleBar :: "Editor \<Rightarrow> FillRect option" where
  "draw_scaleBar st =
     (case imageObj st of
        None \<Rightarrow> None
      | Some img \<Rightarrow>
          if mode st = EDIT \<and> show_bar (settings st) \<and> Fin 0 < pixels (calibration st) then
            (let w = barPixelWidth st; p = overlayPadding (settings st); c = crop st
             in Some
               (case position (settings st) of
                  BottomRight \<Rightarrow>
                    \<lparr>rect_x = crop_x c + crop_width c - w - p,
                     rect_y = crop_y c + crop_height c - p,
                     rect_w = w, rect_h = barHeight (settings st)\<rparr>
                | BottomLeft \<Rightarrow>
                    \<lparr>rect_x = crop_x c + p,
                     rect_y = crop_y c + crop_height c - p,
                     rect_w = w, rect_h = barHeight (settings st)\<rparr>
                | TopRight \<Rightarrow>
                    \<lparr>rect_x = crop_x c + crop_width c - w - p,
                     rect_y = crop_y c + p + fontSize (settings st),
                     rect_w = w, rect_h = barHeight (settings st)\<rparr>
                | TopLeft \<Rightarrow>
                    \<lparr>rect_x = crop_x c + p,
                     rect_y = crop_y c + p + fontSize (settings st),
                     rect_w = w, rect_h = barHeight (settings st)\<rparr>))
          else None)"

text \<open>
  The width or height that a canvas has after \<open>canvas.width = v\<close> or
  \<open>canvas.height = v\<close>. The attribute is an unsigned long: \<open>v\<close> is converted by
  truncating it towards zero and reducing it modulo \<open>2\<^sup>3\<^sup>2\<close> (\<open>NaN\<close> and the infinities
  give 0), and a result above \<open>2\<^sup>3\<^sup>1 - 1\<close> is replaced by the attribute's default, 300
  for the width and 150 for the height.
\<close>

definition canvasDimension :: "int \<Rightarrow> number \<Rightarrow> number" where
  "canvasDimension dflt v =
     (case v of
        Fin a \<Rightarrow>
          (let u = (if 0 \<le> a then \<lfloor>a\<rfloor> else - \<lfloor>- a\<rfloor>) mod 2 ^ 32
           in if u \<le> 2147483647 then Fin (of_int u) else Fin (of_int dflt))
      | NaN \<Rightarrow> Fin 0
      | PInf \<Rightarrow> Fin 0
      | NInf \<Rightarrow> Fin 0)"

text \<open>The size of the temporary canvas of \<open>handleDownload\<close>, set from the crop.\<close>

definition tempCanvas_width :: "Editor \<Rightarrow> number" where
  "tempCanvas_width st = canvasDimension 300 (crop_width (crop st))"

definition tempCanvas_height :: "Editor \<Rightarrow> number" where
  "tempCanvas_height st = canvasDimension 150 (crop_height (crop st))"

text \<open>
  The scale bar of \<open>handleDownload\<close>: the \<open>fillRect\<close> call on the temporary canvas,
  \<open>None\<close> when no bar is painted.
\<close>

definition handleDownload_scaleBar :: "Editor \<Rightarrow> FillRect option" where
  "handleDownload_scaleBar st =
     (case imageObj st of
        None \<Rightarrow> None
      | Some img \<Rightarrow>
          if show_bar (settings st) \<and> Fin 0 < pixels (calibration st) then
            (let w = barPixelWidth st; p = overlayPadding (settings st);
                 cw = tempCanvas_width st; ch = tempCanvas_height st;
                 xy = (case position (settings st) of
                         BottomRight \<Rightarrow> (cw - w - p, ch - p)
                       | BottomLeft \<Rightarrow> (p, ch - p)
                       | TopRight \<Rightarrow> (cw - w - p, p + fontSize (settings st))
                       | TopLeft \<Rightarrow> (p, p + fontSize (settings st)))
             in Some
               \<lparr>rect_x = fst xy, rect_y = snd xy - barHeight (settings st),
                rect_w = w, rect_h = barHeight (settings st)\<rparr>)
          else None)"

text \<open>The \<open>disabled\<close> attribute of the export button.\<close>

definition exportDisabled :: "Editor \<Rightarrow> bool" where
  "exportDisabled st = (pixels (calibration st) = Fin 0)"


section \<open>The formulas of the specification\<close>


text \<open>
  The anchor of the bar as the specification words it, for a reference rectangle with
  the edges \<open>R_left\<close>, \<open>R_top\<close>, \<open>R_right\<close>, \<open>R_bottom\<close>, the bar width \<open>w\<close>, the padding \<open>p\<close>
  and the font size \<open>fs\<close>.
\<close>

fun spec_anchor ::
  "Position \<Rightarrow> number \<Rightarrow> number \<Rightarrow> number \<Rightarrow> number \<Rightarrow> number \<Rightarrow> number \<Rightarrow> number
     \<Rightarrow> number \<times> number" where
  "spec_anchor BottomRight R_left R_top R_right R_bottom w p fs
     = (R_right - w - p, R_bottom - p)"
| "spec_anchor BottomLeft R_left R_top R_right R_bottom w p fs
     = (R_left + p, R_bottom - p)"
| "spec_anchor TopRight R_left R_top R_right R_bottom w p fs
     = (R_right - w - p, R_top + p + fs)"
| "spec_anchor TopLeft R_left R_top R_right R_bottom w p fs
     = (R_left + p, R_top + p + fs)"


text \<open>
  The reading of the scale text as the specification words it: the text is a number and
  a unit separated by white space, the first token being the number and the remainder
  the unit label. White space around the text is not part of it, and a first token
  counts as numeric when \<open>parseFloat\<close> reads a number from it.
\<close>

definition spec_parseScaleText :: "jsstring \<Rightarrow> (number \<times> jsstring) option" where
  "spec_parseScaleText text =
     (let t = trim text;
          first = takeWhile isToken t;
          remainder = dropWhile isWhiteSpace (dropWhile isToken t)
      in if isNaN (parseFloat first) then None
         else if remainder = [] then None
         else Some (parseFloat first, remainder))"


section \<open>A sample session\<close>

text \<open>
  An image of 1000 by 800 pixels is loaded with the suggested crop line 700 and no scale
  text; the user clicks \<open>(0, 0)\<close> and \<open>(30, 40)\<close>.
\<close>

definition sampleImage :: Image where
  "sampleImage = \<lparr>img_width = 1000, img_height = 800\<rparr>"

definition sampleLoaded :: Editor where
  "sampleLoaded = imageOnload sampleImage (Fin 700) None initialEditor"

definition sampleCalibrated :: Editor where
  "sampleCalibrated =
     handleCanvasClick (Fin 30, Fin 40) (handleCanvasClick (Fin 0, Fin 0) sampleLoaded)"


text \<open>The same load for an image of 100 by 100 pixels and for one of 1000 by 2000.\<close>

definition smallLoaded :: Editor where
  "smallLoaded = imageOnload \<lparr>img_width = 100, img_height = 100\<rparr> (Fin 0) None initialEditor"

definition tallLoaded :: Editor where
  "tallLoaded = imageOnload \<lparr>img_width = 1000, img_height = 2000\<rparr> (Fin 0) None initialEditor"

text \<open>A sequence of inset edits, each one a change event of one of the four fields.\<close>

fun applyEdits :: "(InsetType \<times> jsstring) list \<Rightarrow> Editor \<Rightarrow> Editor" where
  "applyEdits [] st = st"
| "applyEdits (e # es) st = applyEdits es (updateCropInset (fst e) (snd e) st)"

text \<open>
  An edit that cannot push the crop out of the image: any edit of the top or left inset,
  and an edit of the bottom or right inset whose text is not a number or is a number
  that is not negative.
\<close>

definition inwardEdit :: "InsetType \<times> jsstring \<Rightarrow> bool" where
  "inwardEdit e =
     (fst e = Top \<or> fst e = Left \<or> isNaN (parseFloat (snd e)) \<or> Fin 0 \<le> parseFloat (snd e))"


section \<open>Facts about numbers\<close>

lemma Fin_zero_plus: "Fin 0 + v = v"
  by (cases v) simp_all

lemma less_Fin_zero_cases: "Fin 0 < v \<longleftrightarrow> (\<exists>a. v = Fin a \<and> 0 < a) \<or> v = PInf"
  by (cases v) auto

lemma Math_sqrt_sum_squares:
  "Math_sqrt (Math_pow_2 (Fin a) + Math_pow_2 (Fin b)) = Fin (sqrt (a\<^sup>2 + b\<^sup>2))"
  by (simp add: not_less)

lemma Math_sqrt_not_negative: "(Math_sqrt v < Fin 0) = False"
  by (cases v) (simp_all add: not_less)


lemma twoPow_powr: "twoPow k = 2 powr real_of_int k"
proof (cases "0 \<le> k")
  case True
  then have "2 powr real_of_int k = 2 powr real (nat k)" by simp
  also have "\<dots> = 2 ^ nat k" by (simp add: powr_realpow)
  finally show ?thesis using True by (simp add: twoPow_def)
next
  case False
  then have "2 powr real_of_int k = 2 powr (- real (nat (- k)))" by simp
  also have "\<dots> = 1 / 2 ^ nat (- k)" by (simp add: powr_minus powr_realpow divide_inverse)
  finally show ?thesis using False by (simp add: twoPow_def)
qed

lemma twoPow_pos: "0 < twoPow k"
  by (simp add: twoPow_powr)

lemma twoPow_add: "twoPow (j + k) = twoPow j * twoPow k"
  by (simp add: twoPow_powr powr_add)

lemma twoPow_mono: "j \<le> k \<Longrightarrow> twoPow j \<le> twoPow k"
  by (simp add: twoPow_powr)

lemma binade_bounds:
  assumes "x \<noteq> 0"
  shows "twoPow (binade x) \<le> \<bar>x\<bar>" and "\<bar>x\<bar> < twoPow (binade x + 1)"
proof -
  have pos: "0 < \<bar>x\<bar>" using assms by simp
  have "real_of_int (binade x) \<le> log 2 \<bar>x\<bar>" by (simp add: binade_def)
  then have "2 powr real_of_int (binade x) \<le> 2 powr log 2 \<bar>x\<bar>" by simp
  then show "twoPow (binade x) \<le> \<bar>x\<bar>" using pos by (simp add: twoPow_powr)
  have "log 2 \<bar>x\<bar> < real_of_int (binade x + 1)" by (simp add: binade_def)
  then have "2 powr log 2 \<bar>x\<bar> < 2 powr real_of_int (binade x + 1)" by (simp only: powr_less_cancel_iff)
  then show "\<bar>x\<bar> < twoPow (binade x + 1)" using pos by (simp add: twoPow_powr)
qed

lemma round_even_error: "\<bar>real_of_int (round_even y) - y\<bar> \<le> 1 / 2"
  unfolding round_even_def Let_def by (auto; linarith)

lemma round_even_int: "round_even (real_of_int z) = z"
  by (simp add: round_even_def)

lemma round_even_nonneg: "0 \<le> y \<Longrightarrow> 0 \<le> round_even y"
  unfolding round_even_def Let_def by (auto simp: ) 


lemma toDouble_not_NaN: "isNaN (toDouble x) = False"
  by (simp add: toDouble_def isNaN_def Let_def)

lemma toDouble_nonneg: "0 \<le> x \<Longrightarrow> Fin 0 \<le> toDouble x"
  by (simp add: toDouble_def Let_def round_even_nonneg twoPow_pos less_imp_le)

text \<open>The error of rounding: half a unit in the last place, relative or absolute.\<close>

lemma toDouble_error:
  assumes "\<bar>x\<bar> \<le> 2 ^ 1023"
  obtains r where "toDouble x = Fin r" and "\<bar>r - x\<bar> \<le> \<bar>x\<bar> / 2 ^ 53 + 1 / 2 ^ 1075"
proof (cases "x = 0")
  case True
  then have "toDouble x = Fin 0" by (simp add: toDouble_def)
  with True that show ?thesis by simp
next
  case False
  define k where "k = max (binade x - 52) (- 1074)"
  define q where "q = twoPow k"
  define r where "r = real_of_int (round_even (x / q)) * q"
  have q: "0 < q" by (simp add: q_def twoPow_pos)
  have "\<bar>r - x\<bar> = \<bar>real_of_int (round_even (x / q)) - x / q\<bar> * q"
  proof -
    have "r - x = (real_of_int (round_even (x / q)) - x / q) * q"
      using q by (simp add: r_def field_simps)
    then show ?thesis using q by (simp add: abs_mult)
  qed
  also have "\<dots> \<le> 1 / 2 * q"
    using q round_even_error [of "x / q"] by (intro mult_right_mono) simp_all
  finally have half: "\<bar>r - x\<bar> \<le> q / 2" by simp
  have qb: "q / 2 \<le> \<bar>x\<bar> / 2 ^ 53 + 1 / 2 ^ 1075"
  proof (cases "- 1074 \<le> binade x - 52")
    case True
    then have "k = binade x + (- 52)" by (simp add: k_def)
    then have "q = twoPow (binade x) * twoPow (- 52)"
      unfolding q_def by (simp only: twoPow_add)
    also have "twoPow (- 52) = 1 / 2 ^ 52" by (simp add: twoPow_def)
    finally have "q / 2 = twoPow (binade x) / 2 ^ 53" by simp
    also have "\<dots> \<le> \<bar>x\<bar> / 2 ^ 53"
      using binade_bounds(1) [OF False] by (intro divide_right_mono) simp_all
    finally show ?thesis by simp
  next
    case False
    then have "k = - 1074" by (simp add: k_def)
    then have "q = 1 / 2 ^ 1074" by (simp add: q_def twoPow_def)
    then have "q / 2 = 1 / 2 ^ 1075" by simp
    then show ?thesis by simp
  qed
  have "\<bar>r\<bar> \<le> \<bar>x\<bar> + \<bar>r - x\<bar>" by simp
  also have "\<dots> \<le> \<bar>x\<bar> + (\<bar>x\<bar> / 2 ^ 53 + 1 / 2 ^ 1075)" using half qb by simp
  also have "\<dots> \<le> 2 ^ 1023 + (2 ^ 1023 / 2 ^ 53 + 1 / 2 ^ 1075)"
    using assms by (intro add_mono divide_right_mono) simp_all
  also have "\<dots> < (2 ^ 1024 :: real)" by simp
  finally have "\<not> 2 ^ 1024 \<le> \<bar>r\<bar>" by simp
  then have "toDouble x = Fin r"
    using \<open>x \<noteq> 0\<close> by (simp add: toDouble_def Let_def r_def q_def k_def)
  moreover have "\<bar>r - x\<bar> \<le> \<bar>x\<bar> / 2 ^ 53 + 1 / 2 ^ 1075" using half qb by simp
  ultimately show ?thesis using that by blast
qed

text \<open>Integers below \<open>2\<^sup>5\<^sup>3\<close> in magnitude are doubles.\<close>

lemma toDouble_int:
  assumes "\<bar>z\<bar> < 2 ^ 53"
  shows "toDouble (real_of_int z) = Fin (real_of_int z)"
proof (cases "z = 0")
  case True
  then show ?thesis by (simp add: toDouble_def)
next
  case False
  let ?x = "real_of_int z"
  have nz: "?x \<noteq> 0" using False by simp
  define k where "k = max (binade ?x - 52) (- 1074)"
  have "twoPow (binade ?x) \<le> \<bar>?x\<bar>" using nz by (rule binade_bounds)
  also have "\<bar>?x\<bar> < 2 ^ 53" using assms by (metis of_int_abs of_int_less_numeral_power_cancel_iff)
  also have "(2 ^ 53 :: real) = twoPow 53" by (simp add: twoPow_def)
  finally have "binade ?x < 53"
    by (metis not_le twoPow_mono leD)
  then have k: "k \<le> 0" by (simp add: k_def)
  then have q: "twoPow k = 1 / 2 ^ nat (- k)"
    by (cases "k = 0") (simp_all add: twoPow_def)
  have "?x / twoPow k = real_of_int (z * 2 ^ nat (- k))"
    by (simp add: q)
  then have "round_even (?x / twoPow k) = z * 2 ^ nat (- k)"
    by (simp only: round_even_int)
  then have r: "real_of_int (round_even (?x / twoPow k)) * twoPow k = ?x"
    by (simp add: q)
  have "\<bar>?x\<bar> < 2 ^ 53" using assms by (metis of_int_abs of_int_less_numeral_power_cancel_iff)
  also have "\<dots> \<le> (2 ^ 1024 :: real)" by simp
  finally have "\<not> 2 ^ 1024 \<le> \<bar>?x\<bar>" by simp
  then show ?thesis
    using nz r by (simp add: toDouble_def Let_def k_def [symmetric])
qed


lemma binade_unique:
  assumes "twoPow e \<le> \<bar>x\<bar>" and "\<bar>x\<bar> < twoPow (e + 1)"
  shows "binade x = e"
proof -
  have pos: "0 < \<bar>x\<bar>" using assms(1) twoPow_pos [of e] by linarith
  have "2 powr real_of_int e \<le> 2 powr log 2 \<bar>x\<bar>"
    using assms(1) pos by (simp add: twoPow_powr)
  then have lower: "real_of_int e \<le> log 2 \<bar>x\<bar>" by simp
  have "2 powr log 2 \<bar>x\<bar> < 2 powr real_of_int (e + 1)"
    using assms(2) pos by (simp add: twoPow_powr)
  then have upper: "log 2 \<bar>x\<bar> < real_of_int e + 1" by simp
  show ?thesis unfolding binade_def using lower upper by (rule floor_unique)
qed

text \<open>The double nearest to a real whose binade is known, for evaluation.\<close>

lemma toDouble_eval:
  assumes "twoPow e \<le> \<bar>x\<bar>" and "\<bar>x\<bar> < twoPow (e + 1)"
    and "- 1022 \<le> e" and "e \<le> 1022"
  shows "toDouble x = Fin (real_of_int (round_even (x / twoPow (e - 52))) * twoPow (e - 52))"
proof -
  have b: "binade x = e" using assms(1,2) by (rule binade_unique)
  have nz: "x \<noteq> 0" using assms(1) twoPow_pos [of e] by auto
  have "twoPow (e + 1) \<le> twoPow 1023" using assms(4) by (intro twoPow_mono) simp
  also have "twoPow 1023 = 2 ^ 1023" by (simp add: twoPow_def)
  finally have "\<bar>x\<bar> \<le> 2 ^ 1023" using assms(2) by linarith
  then obtain r where r: "toDouble x = Fin r" by (rule toDouble_error)
  have m: "max (e - 52) (- 1074) = e - 52" using assms(3) by simp
  show ?thesis
    using r nz unfolding toDouble_def Let_def b m by (simp split: if_splits)
qed

lemma asDouble_not_NaN: "isNaN v = False \<Longrightarrow> isNaN (asDouble v) = False"
  by (cases v) (simp_all add: toDouble_not_NaN)

lemma asDouble_NaN: "isNaN (asDouble v) = isNaN v"
  using toDouble_not_NaN by (cases v) (simp_all add: isNaN_def)

lemma asDouble_nonneg: "Fin 0 \<le> v \<Longrightarrow> Fin 0 \<le> asDouble v"
  by (cases v) (simp_all add: toDouble_nonneg)

lemma divide_100_not_NaN: "isNaN v = False \<Longrightarrow> isNaN (v / Fin 100) = False"
  by (cases v) (simp_all add: isNaN_def)

lemma divide_100_nonneg: "Fin 0 \<le> v \<Longrightarrow> Fin 0 \<le> v / Fin 100"
  by (cases v) simp_all

lemma times_pos_not_NaN: "0 < m \<Longrightarrow> isNaN v = False \<Longrightarrow> isNaN (v * Fin m) = False"
  by (cases v) (simp_all add: isNaN_def)

lemma times_pos_nonneg: "0 < m \<Longrightarrow> Fin 0 \<le> v \<Longrightarrow> Fin 0 \<le> v * Fin m"
  by (cases v) simp_all

lemma Math_round_not_NaN: "isNaN v = False \<Longrightarrow> isNaN (Math_round v) = False"
  by (cases v) (simp_all add: isNaN_def)

lemma Math_round_nonneg: "Fin 0 \<le> v \<Longrightarrow> Fin 0 \<le> Math_round v"
  by (cases v) (simp_all add: le_floor_iff)


section \<open>Calibration: the click cycle and the reset\<close>

lemma imageOnload_crop:
  "crop (imageOnload img s t st) =
     \<lparr>crop_x = Fin 0, crop_y = Fin 0, crop_width = Fin (real (img_width img)),
      crop_height = (if Fin 0 < s then s else Fin (real (img_height img)))\<rparr>"
  by (simp add: imageOnload_def Let_def split: option.splits)

lemma imageOnload_frame:
  "imageObj (imageOnload img s t st) = Some img
   \<and> mode (imageOnload img s t st) = mode st
   \<and> usePercent (imageOnload img s t st) = usePercent st
   \<and> calStart (imageOnload img s t st) = calStart st
   \<and> calEnd (imageOnload img s t st) = calEnd st
   \<and> pixels (calibration (imageOnload img s t st)) = pixels (calibration st)"
  by (simp add: imageOnload_def Let_def split: option.splits)

lemma imageOnload_no_text: "imageOnload img s None st =
  st\<lparr>imageObj := Some img,
     crop := \<lparr>crop_x = Fin 0, crop_y = Fin 0, crop_width = Fin (real (img_width img)),
              crop_height = (if Fin 0 < s then s else Fin (real (img_height img)))\<rparr>\<rparr>"
  by (simp add: imageOnload_def)

text \<open>
  The measured distance is never negative: it is 0, or a result of \<open>Math.sqrt\<close>, in
  every state that the clicks and the reset reach.
\<close>

lemma handleCanvasClick_pixels_not_negative:
  "(pixels (calibration st) < Fin 0) = False
   \<Longrightarrow> (pixels (calibration (handleCanvasClick p st)) < Fin 0) = False"
  by (simp add: handleCanvasClick_def Math_sqrt_not_negative split: option.splits)

text \<open>
  \<^bold>\<open>C9\<close>. The reset of the calibration points, from any state, clears both points and
  sets the measured pixel distance to 0; the known distance, the unit, the crop
  rectangle, the scale-bar settings and every other cell of the state stay as they were.
\<close>

theorem resetPoints_clears_points_only:
  "calStart (resetPoints st) = None
   \<and> calEnd (resetPoints st) = None
   \<and> pixels (calibration (resetPoints st)) = Fin 0
   \<and> knownDistance (calibration (resetPoints st)) = knownDistance (calibration st)
   \<and> unit (calibration (resetPoints st)) = unit (calibration st)
   \<and> crop (resetPoints st) = crop st
   \<and> settings (resetPoints st) = settings st
   \<and> imageObj (resetPoints st) = imageObj st
   \<and> mode (resetPoints st) = mode st
   \<and> usePercent (resetPoints st) = usePercent st
   \<and> cursorPos (resetPoints st) = cursorPos st"
  by (simp add: resetPoints_def)

text \<open>
  \<^bold>\<open>C7\<close>. The second calibration click, made in CALIBRATE mode when the start point is
  set and the end point is not, stores the clicked point as the end point and sets the
  pixel distance to the Euclidean distance between the two points: the square root of
  the sum of the squared coordinate differences, which is the distance of the two
  points in the plane.
\<close>

theorem second_click_euclidean_distance:
  assumes "mode st = CALIBRATE"
    and "calStart st = Some (Fin sx, Fin sy)"
    and "calEnd st = None"
  shows "calEnd (handleCanvasClick (Fin ex, Fin ey) st) = Some (Fin ex, Fin ey)
    \<and> calStart (handleCanvasClick (Fin ex, Fin ey) st) = Some (Fin sx, Fin sy)
    \<and> pixels (calibration (handleCanvasClick (Fin ex, Fin ey) st))
        = Fin (sqrt ((ex - sx)\<^sup>2 + (ey - sy)\<^sup>2))
    \<and> pixels (calibration (handleCanvasClick (Fin ex, Fin ey) st))
        = Fin (dist (Complex ex ey) (Complex sx sy))"
proof -
  have d: "dist (Complex ex ey) (Complex sx sy) = sqrt ((ex - sx)\<^sup>2 + (ey - sy)\<^sup>2)"
    by (simp add: dist_complex_def cmod_def)
  show ?thesis
    using assms by (simp add: handleCanvasClick_def not_sum_power2_lt_zero d)
qed

text \<open>
  The 3-4-5 triangle: with the start at \<open>(0, 0)\<close> the click at \<open>(30, 40)\<close> gives the
  distance 50.
\<close>

theorem second_click_euclidean_distance_witness:
  "mode (handleCanvasClick (Fin 0, Fin 0) initialEditor) = CALIBRATE
   \<and> calStart (handleCanvasClick (Fin 0, Fin 0) initialEditor) = Some (Fin 0, Fin 0)
   \<and> calEnd (handleCanvasClick (Fin 0, Fin 0) initialEditor) = None
   \<and> pixels (calibration
        (handleCanvasClick (Fin 30, Fin 40) (handleCanvasClick (Fin 0, Fin 0) initialEditor)))
      = Fin 50"
proof -
  let ?st = "handleCanvasClick (Fin 0, Fin 0) initialEditor"
  have m: "mode ?st = CALIBRATE"
    and s: "calStart ?st = Some (Fin 0, Fin 0)"
    and e: "calEnd ?st = None"
    by (simp_all add: handleCanvasClick_def initialEditor_def)
  have "sqrt ((30 - 0)\<^sup>2 + (40 - 0)\<^sup>2) = (50::real)" by simp
  then show ?thesis
    using m s e second_click_euclidean_distance [OF m s e, of 30 40] by simp
qed

text \<open>
  \<^bold>\<open>C2\<close>, as the code has it. From a state in CALIBRATE mode with no point set, the
  clicks A, B, C end with the start point C and no end point; the pixel distance is
  still the distance from A to B that the second click computed (the third click does
  not touch it), and the known distance and the unit are unchanged.
\<close>

theorem three_clicks_keep_distance:
  assumes "mode st = CALIBRATE" and "calStart st = None" and "calEnd st = None"
  shows "calStart (handleCanvasClick C (handleCanvasClick B (handleCanvasClick A st))) = Some C
    \<and> calEnd (handleCanvasClick C (handleCanvasClick B (handleCanvasClick A st))) = None
    \<and> pixels (calibration (handleCanvasClick C (handleCanvasClick B (handleCanvasClick A st))))
        = Math_sqrt (Math_pow_2 (fst B - fst A) + Math_pow_2 (snd B - snd A))
    \<and> knownDistance (calibration (handleCanvasClick C (handleCanvasClick B (handleCanvasClick A st))))
        = knownDistance (calibration st)
    \<and> unit (calibration (handleCanvasClick C (handleCanvasClick B (handleCanvasClick A st))))
        = unit (calibration st)"
  using assms by (simp add: handleCanvasClick_def)

theorem three_clicks_keep_distance_witness:
  "mode initialEditor = CALIBRATE \<and> calStart initialEditor = None
   \<and> calEnd initialEditor = None
   \<and> calStart (handleCanvasClick (Fin 5, Fin 5) (handleCanvasClick (Fin 30, Fin 40)
        (handleCanvasClick (Fin 0, Fin 0) initialEditor))) = Some (Fin 5, Fin 5)
   \<and> pixels (calibration (handleCanvasClick (Fin 5, Fin 5) (handleCanvasClick (Fin 30, Fin 40)
        (handleCanvasClick (Fin 0, Fin 0) initialEditor)))) = Fin 50
   \<and> knownDistance (calibration (handleCanvasClick (Fin 5, Fin 5)
        (handleCanvasClick (Fin 30, Fin 40) (handleCanvasClick (Fin 0, Fin 0) initialEditor))))
      = Fin 10"
proof -
  have m: "mode initialEditor = CALIBRATE"
    and s: "calStart initialEditor = None"
    and e: "calEnd initialEditor = None"
    and k: "knownDistance (calibration initialEditor) = Fin 10"
    by (simp_all add: initialEditor_def)
  have "sqrt (30\<^sup>2 + 40\<^sup>2) = (50::real)" by simp
  then show ?thesis
    using m s e k
      three_clicks_keep_distance [OF m s e, of "(Fin 5, Fin 5)" "(Fin 30, Fin 40)" "(Fin 0, Fin 0)"]
    by (simp add: not_less)
qed

text \<open>
  The claim as the specification states it fails: after the clicks \<open>(0, 0)\<close>, \<open>(30, 40)\<close>
  and \<open>(5, 5)\<close> on a fresh session the pixel distance is 50, not 0.
\<close>

theorem three_clicks_distance_not_zero:
  "mode initialEditor = CALIBRATE \<and> calStart initialEditor = None
   \<and> calEnd initialEditor = None
   \<and> pixels (calibration (handleCanvasClick (Fin 5, Fin 5) (handleCanvasClick (Fin 30, Fin 40)
        (handleCanvasClick (Fin 0, Fin 0) initialEditor)))) = Fin 50
   \<and> pixels (calibration (handleCanvasClick (Fin 5, Fin 5) (handleCanvasClick (Fin 30, Fin 40)
        (handleCanvasClick (Fin 0, Fin 0) initialEditor)))) \<noteq> Fin 0"
proof -
  have "sqrt (30\<^sup>2 + 40\<^sup>2) = (50::real)" by simp
  then show ?thesis
    by (simp add: handleCanvasClick_def initialEditor_def not_less)
qed


section \<open>Image load: the default crop\<close>

text \<open>
  \<^bold>\<open>C10\<close>. On image load the crop height is the suggested crop line whenever that is
  positive, without any clamp: a suggestion beyond the image height leaves the crop
  reaching below the image, and a suggestion between 0 and 10 leaves a crop lower than
  10 pixels.
\<close>

theorem imageOnload_height_unclamped:
  "(Fin 0 < s \<longrightarrow> crop_height (crop (imageOnload img s t st)) = s)
   \<and> (Fin (real (img_height img)) < s \<longrightarrow>
        Fin (real (img_height img))
          < crop_y (crop (imageOnload img s t st)) + crop_height (crop (imageOnload img s t st)))
   \<and> (Fin 0 < s \<and> s < Fin 10 \<longrightarrow> crop_height (crop (imageOnload img s t st)) < Fin 10)"
proof -
  have "Fin 0 < s" if "Fin (real (img_height img)) < s"
    using that by (cases s) (auto intro: le_less_trans [of 0 "real (img_height img)"])
  then show ?thesis
    by (auto simp: imageOnload_crop Fin_zero_plus)
qed

theorem imageOnload_height_unclamped_witness:
  "Fin 0 < Fin 900
   \<and> Fin (real (img_height \<lparr>img_width = 1000, img_height = 800\<rparr>)) < Fin 900
   \<and> crop_height (crop (imageOnload \<lparr>img_width = 1000, img_height = 800\<rparr> (Fin 900) None
        initialEditor)) = Fin 900
   \<and> Fin 800 < crop_y (crop (imageOnload \<lparr>img_width = 1000, img_height = 800\<rparr> (Fin 900) None
        initialEditor))
      + crop_height (crop (imageOnload \<lparr>img_width = 1000, img_height = 800\<rparr> (Fin 900) None
        initialEditor))
   \<and> Fin 0 < Fin 5 \<and> Fin 5 < Fin 10
   \<and> crop_height (crop (imageOnload \<lparr>img_width = 1000, img_height = 800\<rparr> (Fin 5) None
        initialEditor)) = Fin 5
   \<and> crop_height (crop (imageOnload \<lparr>img_width = 1000, img_height = 800\<rparr> (Fin 5) None
        initialEditor)) < Fin 10"
  using imageOnload_height_unclamped
      [of "Fin 900" "\<lparr>img_width = 1000, img_height = 800\<rparr>" None initialEditor]
    imageOnload_height_unclamped
      [of "Fin 5" "\<lparr>img_width = 1000, img_height = 800\<rparr>" None initialEditor]
  by (simp add: imageOnload_crop)


section \<open>The scale bar: width, anchor and guards\<close>

lemma sampleLoaded_eq:
  "sampleLoaded = initialEditor
     \<lparr>imageObj := Some sampleImage,
      crop := \<lparr>crop_x = Fin 0, crop_y = Fin 0, crop_width = Fin 1000, crop_height = Fin 700\<rparr>\<rparr>"
  by (simp add: sampleLoaded_def imageOnload_no_text sampleImage_def)

lemma sampleCalibrated_eq:
  "sampleCalibrated = sampleLoaded
     \<lparr>calStart := Some (Fin 0, Fin 0), calEnd := Some (Fin 30, Fin 40),
      calibration := \<lparr>pixels = Fin 50, knownDistance = Fin 10, unit = micrometre\<rparr>\<rparr>"
proof -
  have "sqrt (30\<^sup>2 + 40\<^sup>2) = (50::real)" by simp
  then show ?thesis
    by (simp add: sampleCalibrated_def sampleLoaded_eq handleCanvasClick_def initialEditor_def
        not_less)
qed

lemma sampleCalibrated_fields:
  "imageObj sampleCalibrated = Some sampleImage"
  "crop sampleCalibrated
     = \<lparr>crop_x = Fin 0, crop_y = Fin 0, crop_width = Fin 1000, crop_height = Fin 700\<rparr>"
  "mode sampleCalibrated = CALIBRATE"
  "calibration sampleCalibrated = \<lparr>pixels = Fin 50, knownDistance = Fin 10, unit = micrometre\<rparr>"
  "settings sampleCalibrated = settings initialEditor"
  by (simp_all add: sampleCalibrated_eq sampleLoaded_eq initialEditor_def)

lemma initial_settings_fields:
  "show_bar (settings initialEditor) = True"
  "lengthValue (settings initialEditor) = Fin 5"
  "barHeight (settings initialEditor) = Fin 8"
  "fontSize (settings initialEditor) = Fin 24"
  "position (settings initialEditor) = BottomRight"
  "overlayPadding (settings initialEditor) = Fin 40"
  by (simp_all add: initialEditor_def)

lemma setMode_fields:
  "imageObj (setMode m st) = imageObj st"
  "crop (setMode m st) = crop st"
  "mode (setMode m st) = m"
  "calibration (setMode m st) = calibration st"
  "settings (setMode m st) = settings st"
  by (simp_all add: setMode_def)

lemma positive_ratio_positive_pixels:
  assumes "Fin 0 < px / kd" and "(px < Fin 0) = False"
  shows "Fin 0 < px"
proof (cases px)
  case (Fin a)
  show ?thesis
  proof (cases kd)
    case (Fin b)
    with \<open>px = Fin a\<close> assms show ?thesis
      by (cases "b = 0") (auto simp: zero_less_divide_iff split: if_splits)
  qed (use \<open>px = Fin a\<close> assms in simp_all)
qed (use assms in simp_all)

lemma setKnownDistance_fields:
  "imageObj (setKnownDistance v st) = imageObj st"
  "crop (setKnownDistance v st) = crop st"
  "mode (setKnownDistance v st) = mode st"
  "settings (setKnownDistance v st) = settings st"
  "pixels (calibration (setKnownDistance v st)) = pixels (calibration st)"
  "knownDistance (calibration (setKnownDistance v st)) = v"
  by (simp_all add: setKnownDistance_def)

text \<open>
  \<^bold>\<open>C5\<close>. Let the measured distance be the finite number \<open>p\<close>, not negative (as in
  every state the editor reaches), the known distance the finite number \<open>k\<close>, not 0,
  and the ratio \<open>p / k\<close> positive; let an image be loaded and the bar visible. Then
  \<open>pixelsPerUnit\<close> is \<open>p / k\<close>, and the bar is painted by the export, and in EDIT mode
  by the preview, with the width \<open>lengthValue * (p / k)\<close>.
\<close>

theorem bar_width_is_length_times_ratio:
  assumes "pixels (calibration st) = Fin p"
    and "knownDistance (calibration st) = Fin k"
    and "0 \<le> p" and "0 < \<bar>k\<bar>" and "0 < p / k"
    and "imageObj st = Some img"
    and "show_bar (settings st)"
  shows "pixelsPerUnit (calibration st) = Fin (p / k)
    \<and> (mode st = EDIT \<longrightarrow>
          map_option rect_w (draw_scaleBar st) = Some (lengthValue (settings st) * Fin (p / k)))
    \<and> map_option rect_w (handleDownload_scaleBar st)
        = Some (lengthValue (settings st) * Fin (p / k))
    \<and> (lengthValue (settings st) = Fin l \<longrightarrow>
          (mode st = EDIT \<longrightarrow> map_option rect_w (draw_scaleBar st) = Some (Fin (l * (p / k))))
          \<and> map_option rect_w (handleDownload_scaleBar st) = Some (Fin (l * (p / k))))"
proof -
  have ratio: "pixelsPerUnit (calibration st) = Fin (p / k)"
    using assms(1,2,4) by (simp add: pixelsPerUnit_def)
  have "0 < p"
    using assms(3,5) by (cases "p = 0") simp_all
  then have pos: "Fin 0 < pixels (calibration st)"
    using assms(1) by simp
  have preview: "map_option rect_w (draw_scaleBar st)
      = Some (lengthValue (settings st) * Fin (p / k))" if "mode st = EDIT"
    using that pos ratio assms(6,7)
    by (cases "position (settings st)") (simp_all add: draw_scaleBar_def barPixelWidth_def Let_def)
  have export: "map_option rect_w (handleDownload_scaleBar st)
      = Some (lengthValue (settings st) * Fin (p / k))"
    using pos ratio assms(6,7)
    by (simp add: handleDownload_scaleBar_def barPixelWidth_def Let_def)
  show ?thesis
    using ratio preview export by auto
qed

text \<open>
  A measured distance of 50 and a bar of length 5: 25 pixels for the known distance 10,
  and 12.5 pixels for the known distance 20.
\<close>

theorem bar_width_is_length_times_ratio_witness:
  "pixels (calibration (setMode EDIT sampleCalibrated)) = Fin 50
   \<and> knownDistance (calibration (setMode EDIT sampleCalibrated)) = Fin 10
   \<and> lengthValue (settings (setMode EDIT sampleCalibrated)) = Fin 5
   \<and> (0::real) < 50 / 10
   \<and> mode (setMode EDIT sampleCalibrated) = EDIT
   \<and> map_option rect_w (draw_scaleBar (setMode EDIT sampleCalibrated)) = Some (Fin 25)
   \<and> map_option rect_w (handleDownload_scaleBar (setMode EDIT sampleCalibrated)) = Some (Fin 25)
   \<and> knownDistance (calibration (setMode EDIT (setKnownDistance (Fin 20) sampleCalibrated)))
       = Fin 20
   \<and> map_option rect_w (draw_scaleBar (setMode EDIT (setKnownDistance (Fin 20) sampleCalibrated)))
       = Some (Fin (25 / 2))
   \<and> map_option rect_w
        (handleDownload_scaleBar (setMode EDIT (setKnownDistance (Fin 20) sampleCalibrated)))
       = Some (Fin (25 / 2))"
proof -
  let ?a = "setMode EDIT sampleCalibrated"
  let ?b = "setMode EDIT (setKnownDistance (Fin 20) sampleCalibrated)"
  have a: "pixels (calibration ?a) = Fin 50" "knownDistance (calibration ?a) = Fin 10"
    "imageObj ?a = Some sampleImage" "show_bar (settings ?a)"
    "lengthValue (settings ?a) = Fin 5" "mode ?a = EDIT"
    by (simp_all add: setMode_fields sampleCalibrated_fields initial_settings_fields)
  have b: "pixels (calibration ?b) = Fin 50" "knownDistance (calibration ?b) = Fin 20"
    "imageObj ?b = Some sampleImage" "show_bar (settings ?b)"
    "lengthValue (settings ?b) = Fin 5" "mode ?b = EDIT"
    by (simp_all add: setMode_fields setKnownDistance_fields sampleCalibrated_fields
        initial_settings_fields)
  have n: "(0::real) \<le> 50" "(0::real) < \<bar>10\<bar>" "(0::real) < 50 / 10"
    "(0::real) < \<bar>20\<bar>" "(0::real) < 50 / 20"
    by simp_all
  show ?thesis
    using a b
      bar_width_is_length_times_ratio [OF a(1) a(2) n(1) n(2) n(3) a(3) a(4), of 5]
      bar_width_is_length_times_ratio [OF b(1) b(2) n(1) n(4) n(5) b(3) b(4), of 5]
    by simp
qed

lemma canvasDimension_nat:
  assumes "n < 2 ^ 31"
  shows "canvasDimension d (Fin (real n)) = Fin (real n)"
proof -
  have "int n mod 2 ^ 32 = int n"
    using assms by (intro mod_pos_pos_trivial) simp_all
  moreover have "int n \<le> 2147483647"
    using assms by simp
  ultimately show ?thesis
    by (simp add: canvasDimension_def)
qed

text \<open>
  \<^bold>\<open>C6\<close>. With an image loaded, the bar visible and a positive measured distance, the
  export paints the bar, and in EDIT mode the preview paints it, for every corner, padding
  \<open>p\<close> and crop. The anchor \<open>(x, y)\<close> is the one the corner formulas give for the
  reference rectangle: the crop rectangle in the preview, the output rectangle (the
  temporary canvas, at the origin) in the export. The preview fills the rectangle at
  \<open>(x, y)\<close>, the export at \<open>(x, y - barHeight)\<close>, both of the bar's width
  \<open>lengthValue * (pixels / knownDistance)\<close> and thickness. The output rectangle has the
  size of the crop whenever that size is a pair of natural numbers below \<open>2\<^sup>3\<^sup>1\<close>.
\<close>

theorem bar_anchor_by_corner:
  assumes "imageObj st = Some img"
    and "show_bar (settings st)"
    and "Fin 0 < pixels (calibration st)"
  shows "(mode st = EDIT \<longrightarrow>
      draw_scaleBar st = Some
        \<lparr>rect_x = fst (spec_anchor (position (settings st))
            (crop_x (crop st)) (crop_y (crop st))
            (crop_x (crop st) + crop_width (crop st))
            (crop_y (crop st) + crop_height (crop st))
            (lengthValue (settings st) * (pixels (calibration st) / knownDistance (calibration st)))
            (overlayPadding (settings st)) (fontSize (settings st))),
         rect_y = snd (spec_anchor (position (settings st))
            (crop_x (crop st)) (crop_y (crop st))
            (crop_x (crop st) + crop_width (crop st))
            (crop_y (crop st) + crop_height (crop st))
            (lengthValue (settings st) * (pixels (calibration st) / knownDistance (calibration st)))
            (overlayPadding (settings st)) (fontSize (settings st))),
         rect_w = lengthValue (settings st)
            * (pixels (calibration st) / knownDistance (calibration st)),
         rect_h = barHeight (settings st)\<rparr>)
   \<and> handleDownload_scaleBar st = Some
        \<lparr>rect_x = fst (spec_anchor (position (settings st))
            (Fin 0) (Fin 0) (tempCanvas_width st) (tempCanvas_height st)
            (lengthValue (settings st) * (pixels (calibration st) / knownDistance (calibration st)))
            (overlayPadding (settings st)) (fontSize (settings st))),
         rect_y = snd (spec_anchor (position (settings st))
            (Fin 0) (Fin 0) (tempCanvas_width st) (tempCanvas_height st)
            (lengthValue (settings st) * (pixels (calibration st) / knownDistance (calibration st)))
            (overlayPadding (settings st)) (fontSize (settings st)))
          - barHeight (settings st),
         rect_w = lengthValue (settings st)
            * (pixels (calibration st) / knownDistance (calibration st)),
         rect_h = barHeight (settings st)\<rparr>
   \<and> (crop_width (crop st) = Fin (real cw) \<and> cw < 2 ^ 31
        \<and> crop_height (crop st) = Fin (real ch) \<and> ch < 2 ^ 31 \<longrightarrow>
      tempCanvas_width st = crop_width (crop st)
      \<and> tempCanvas_height st = crop_height (crop st))"
proof -
  have preview: "draw_scaleBar st = Some
        \<lparr>rect_x = fst (spec_anchor (position (settings st))
            (crop_x (crop st)) (crop_y (crop st))
            (crop_x (crop st) + crop_width (crop st))
            (crop_y (crop st) + crop_height (crop st))
            (lengthValue (settings st) * (pixels (calibration st) / knownDistance (calibration st)))
            (overlayPadding (settings st)) (fontSize (settings st))),
         rect_y = snd (spec_anchor (position (settings st))
            (crop_x (crop st)) (crop_y (crop st))
            (crop_x (crop st) + crop_width (crop st))
            (crop_y (crop st) + crop_height (crop st))
            (lengthValue (settings st) * (pixels (calibration st) / knownDistance (calibration st)))
            (overlayPadding (settings st)) (fontSize (settings st))),
         rect_w = lengthValue (settings st)
            * (pixels (calibration st) / knownDistance (calibration st)),
         rect_h = barHeight (settings st)\<rparr>"
    if "mode st = EDIT"
    using that assms
    by (cases "position (settings st)")
      (simp_all add: draw_scaleBar_def barPixelWidth_def pixelsPerUnit_def Let_def)
  have export: "handleDownload_scaleBar st = Some
        \<lparr>rect_x = fst (spec_anchor (position (settings st))
            (Fin 0) (Fin 0) (tempCanvas_width st) (tempCanvas_height st)
            (lengthValue (settings st) * (pixels (calibration st) / knownDistance (calibration st)))
            (overlayPadding (settings st)) (fontSize (settings st))),
         rect_y = snd (spec_anchor (position (settings st))
            (Fin 0) (Fin 0) (tempCanvas_width st) (tempCanvas_height st)
            (lengthValue (settings st) * (pixels (calibration st) / knownDistance (calibration st)))
            (overlayPadding (settings st)) (fontSize (settings st)))
          - barHeight (settings st),
         rect_w = lengthValue (settings st)
            * (pixels (calibration st) / knownDistance (calibration st)),
         rect_h = barHeight (settings st)\<rparr>"
    using assms
    by (cases "position (settings st)")
      (simp_all add: handleDownload_scaleBar_def barPixelWidth_def pixelsPerUnit_def Let_def
        Fin_zero_plus)
  have size: "tempCanvas_width st = crop_width (crop st)
      \<and> tempCanvas_height st = crop_height (crop st)"
    if "crop_width (crop st) = Fin (real cw)" and "cw < 2 ^ 31"
      and "crop_height (crop st) = Fin (real ch)" and "ch < 2 ^ 31"
    using that by (simp add: tempCanvas_width_def tempCanvas_height_def canvasDimension_nat)
  show ?thesis
    using preview export size by blast
qed

lemma setPosition_fields:
  "imageObj (setPosition pos st) = imageObj st"
  "crop (setPosition pos st) = crop st"
  "mode (setPosition pos st) = mode st"
  "calibration (setPosition pos st) = calibration st"
  "position (settings (setPosition pos st)) = pos"
  "show_bar (settings (setPosition pos st)) = show_bar (settings st)"
  "lengthValue (settings (setPosition pos st)) = lengthValue (settings st)"
  "barHeight (settings (setPosition pos st)) = barHeight (settings st)"
  "fontSize (settings (setPosition pos st)) = fontSize (settings st)"
  "overlayPadding (settings (setPosition pos st)) = overlayPadding (settings st)"
  by (simp_all add: setPosition_def)

lemma sample_canvas:
  "tempCanvas_width (setMode EDIT sampleCalibrated) = Fin 1000"
  "tempCanvas_height (setMode EDIT sampleCalibrated) = Fin 700"
  "tempCanvas_width (setMode EDIT (setKnownDistance k sampleCalibrated)) = Fin 1000"
  "tempCanvas_height (setMode EDIT (setKnownDistance k sampleCalibrated)) = Fin 700"
  "tempCanvas_width (setPosition pos (setMode EDIT sampleCalibrated)) = Fin 1000"
  "tempCanvas_height (setPosition pos (setMode EDIT sampleCalibrated)) = Fin 700"
  using canvasDimension_nat [of 1000 300] canvasDimension_nat [of 700 150]
  by (simp_all add: tempCanvas_width_def tempCanvas_height_def setMode_def
      setKnownDistance_def setPosition_def sampleCalibrated_fields)


text \<open>
  In the sample session the bar of 25 pixels, with the padding 40 and the font size 24,
  is filled at these places for the four corners: bottom right at \<open>(935, 660)\<close> in the
  preview and \<open>(935, 652)\<close> in the export, bottom left at \<open>(40, 660)\<close> and \<open>(40, 652)\<close>,
  top right at \<open>(935, 64)\<close> and \<open>(935, 56)\<close>, top left at \<open>(40, 64)\<close> and \<open>(40, 56)\<close>.
\<close>

theorem bar_anchor_by_corner_witness:
  "imageObj (setMode EDIT sampleCalibrated) = Some sampleImage
   \<and> show_bar (settings (setMode EDIT sampleCalibrated))
   \<and> Fin 0 < pixels (calibration (setMode EDIT sampleCalibrated))
   \<and> mode (setMode EDIT sampleCalibrated) = EDIT
   \<and> draw_scaleBar (setPosition BottomRight (setMode EDIT sampleCalibrated))
     = Some \<lparr>rect_x = Fin 935, rect_y = Fin 660, rect_w = Fin 25, rect_h = Fin 8\<rparr>
   \<and> handleDownload_scaleBar (setPosition BottomRight (setMode EDIT sampleCalibrated))
     = Some \<lparr>rect_x = Fin 935, rect_y = Fin 652, rect_w = Fin 25, rect_h = Fin 8\<rparr>
   \<and> draw_scaleBar (setPosition BottomLeft (setMode EDIT sampleCalibrated))
     = Some \<lparr>rect_x = Fin 40, rect_y = Fin 660, rect_w = Fin 25, rect_h = Fin 8\<rparr>
   \<and> handleDownload_scaleBar (setPosition BottomLeft (setMode EDIT sampleCalibrated))
     = Some \<lparr>rect_x = Fin 40, rect_y = Fin 652, rect_w = Fin 25, rect_h = Fin 8\<rparr>
   \<and> draw_scaleBar (setPosition TopRight (setMode EDIT sampleCalibrated))
     = Some \<lparr>rect_x = Fin 935, rect_y = Fin 64, rect_w = Fin 25, rect_h = Fin 8\<rparr>
   \<and> handleDownload_scaleBar (setPosition TopRight (setMode EDIT sampleCalibrated))
     = Some \<lparr>rect_x = Fin 935, rect_y = Fin 56, rect_w = Fin 25, rect_h = Fin 8\<rparr>
   \<and> draw_scaleBar (setPosition TopLeft (setMode EDIT sampleCalibrated))
     = Some \<lparr>rect_x = Fin 40, rect_y = Fin 64, rect_w = Fin 25, rect_h = Fin 8\<rparr>
   \<and> handleDownload_scaleBar (setPosition TopLeft (setMode EDIT sampleCalibrated))
     = Some \<lparr>rect_x = Fin 40, rect_y = Fin 56, rect_w = Fin 25, rect_h = Fin 8\<rparr>
   \<and> tempCanvas_width (setMode EDIT sampleCalibrated) = Fin 1000
   \<and> tempCanvas_height (setMode EDIT sampleCalibrated) = Fin 700"
proof -
  let ?st = "setMode EDIT sampleCalibrated"
  have g: "imageObj (setPosition pos ?st) = Some sampleImage"
    "show_bar (settings (setPosition pos ?st))"
    "Fin 0 < pixels (calibration (setPosition pos ?st))"
    "mode (setPosition pos ?st) = EDIT" for pos
    by (simp_all add: setPosition_fields setMode_fields sampleCalibrated_fields
        initial_settings_fields)
  have h: "imageObj ?st = Some sampleImage" "show_bar (settings ?st)"
    "Fin 0 < pixels (calibration ?st)" "mode ?st = EDIT"
    by (simp_all add: setMode_fields sampleCalibrated_fields initial_settings_fields)
  have f: "crop (setPosition pos ?st)
       = \<lparr>crop_x = Fin 0, crop_y = Fin 0, crop_width = Fin 1000, crop_height = Fin 700\<rparr>"
    "calibration (setPosition pos ?st)
       = \<lparr>pixels = Fin 50, knownDistance = Fin 10, unit = micrometre\<rparr>"
    "lengthValue (settings (setPosition pos ?st)) = Fin 5"
    "barHeight (settings (setPosition pos ?st)) = Fin 8"
    "fontSize (settings (setPosition pos ?st)) = Fin 24"
    "overlayPadding (settings (setPosition pos ?st)) = Fin 40"
    "position (settings (setPosition pos ?st)) = pos" for pos
    by (simp_all add: setPosition_fields setMode_fields sampleCalibrated_fields
        initial_settings_fields)
  show ?thesis
    using h
      bar_anchor_by_corner [OF g(1) g(2) g(3), of BottomRight 1000 700]
      bar_anchor_by_corner [OF g(1) g(2) g(3), of BottomLeft 1000 700]
      bar_anchor_by_corner [OF g(1) g(2) g(3), of TopRight 1000 700]
      bar_anchor_by_corner [OF g(1) g(2) g(3), of TopLeft 1000 700]
    by (simp add: g f sample_canvas)
qed





text \<open>
  A negative known distance is not checked either: with the known distance \<open>-10\<close> the
  ratio is \<open>-5\<close>, the export button is enabled and the preview fills a bar of the width
  \<open>-25\<close>.
\<close>

lemma negative_known_distance_paints_bar:
  "pixelsPerUnit (calibration (setMode EDIT (setKnownDistance (Fin (- 10)) sampleCalibrated)))
     = Fin (- 5)
   \<and> exportDisabled (setMode EDIT (setKnownDistance (Fin (- 10)) sampleCalibrated)) = False
   \<and> draw_scaleBar (setMode EDIT (setKnownDistance (Fin (- 10)) sampleCalibrated))
       = Some \<lparr>rect_x = Fin 985, rect_y = Fin 660, rect_w = Fin (- 25), rect_h = Fin 8\<rparr>"
proof -
  let ?st = "setMode EDIT (setKnownDistance (Fin (- 10)) sampleCalibrated)"
  have f: "imageObj ?st = Some sampleImage" "mode ?st = EDIT"
    "calibration ?st = \<lparr>pixels = Fin 50, knownDistance = Fin (- 10), unit = micrometre\<rparr>"
    "settings ?st = settings initialEditor"
    "crop ?st
       = \<lparr>crop_x = Fin 0, crop_y = Fin 0, crop_width = Fin 1000, crop_height = Fin 700\<rparr>"
    by (simp_all add: setMode_def setKnownDistance_def sampleCalibrated_fields)
  show ?thesis
    by (simp add: draw_scaleBar_def barPixelWidth_def pixelsPerUnit_def exportDisabled_def f
        initial_settings_fields)
qed


section \<open>Crop insets: bounds and round trip\<close>

lemma Math_max_Fin: "Math_max (Fin a) (Fin b) = Fin (max a b)"
  by (simp add: max_def not_less)

lemma round_half_error: "\<bar>real_of_int \<lfloor>a + 1 / 2\<rfloor> - a\<bar> \<le> 1 / 2"
  by linarith

lemma floor_int_plus_half: "\<lfloor>real_of_int k + 1 / 2\<rfloor> = k"
  by linarith

lemma toFixed_1_error:
  obtains d where "toFixed_1 (Fin a) = Fin d" and "\<bar>d - a\<bar> \<le> 1 / 20"
proof -
  have up: "\<bar>real_of_int \<lfloor>10 * a + 1 / 2\<rfloor> / 10 - a\<bar> \<le> 1 / 20"
    using round_half_error [of "10 * a"] by linarith
  have down: "\<bar>- (real_of_int \<lfloor>10 * (- a) + 1 / 2\<rfloor> / 10) - a\<bar> \<le> 1 / 20"
    using round_half_error [of "10 * (- a)"] by linarith
  consider "10 ^ 21 \<le> \<bar>a\<bar>" | "\<not> 10 ^ 21 \<le> \<bar>a\<bar>" "a < 0" | "\<not> 10 ^ 21 \<le> \<bar>a\<bar>" "\<not> a < 0"
    by blast
  then show thesis
  proof cases
    case 1
    then have "toFixed_1 (Fin a) = Fin a" by simp
    then show ?thesis using that [of a] by simp
  next
    case 2
    then have "toFixed_1 (Fin a) = Fin (- (real_of_int \<lfloor>10 * (- a) + 1 / 2\<rfloor> / 10))"
      by simp
    then show ?thesis using that down by blast
  next
    case 3
    then have "toFixed_1 (Fin a) = Fin (real_of_int \<lfloor>10 * a + 1 / 2\<rfloor> / 10)"
      by simp
    then show ?thesis using that up by blast
  qed
qed

lemma parseFloat_examples:
  "parseFloat (str ''-5'') = Fin (- 5)"
  "parseFloat (str ''50'') = Fin 50"
  "parseFloat (str ''795'') = Fin 795"
  "parseFloat (str ''10.4'') = Fin (104 / 10)"
  "parseFloat (str ''0.19'') = Fin (19 / 100)"
  "parseFloat (str ''12.34'') = Fin (1234 / 100)"
  by (simp_all add: parseFloat_def str_def signPart_def isWhiteSpace_def isDigit_def
      digitsValue_def exponentPart_def scale10_def)

lemma cropWithinBounds_finite:
  assumes "cropWithinBounds img c"
  obtains x y w h
  where "c = \<lparr>crop_x = Fin x, crop_y = Fin y, crop_width = Fin w, crop_height = Fin h\<rparr>"
    and "10 \<le> w" and "10 \<le> h" and "0 \<le> x" and "0 \<le> y"
    and "x + w \<le> real (img_width img)" and "y + h \<le> real (img_height img)"
proof -
  obtain cx cy cw ch
    where c: "c = \<lparr>crop_x = cx, crop_y = cy, crop_width = cw, crop_height = ch\<rparr>"
    by (cases c) simp
  from assms c have "\<exists>x y w h. cx = Fin x \<and> cy = Fin y \<and> cw = Fin w \<and> ch = Fin h
     \<and> 10 \<le> w \<and> 10 \<le> h \<and> 0 \<le> x \<and> 0 \<le> y
     \<and> x + w \<le> real (img_width img) \<and> y + h \<le> real (img_height img)"
    by (cases cx; cases cy; cases cw; cases ch) (simp_all add: cropWithinBounds_def)
  with c that show thesis by blast
qed

lemma cropWithinBounds_image_size:
  assumes "cropWithinBounds img c"
  shows "0 < real (img_width img)" and "0 < real (img_height img)"
proof -
  from assms obtain x y w h
    where "10 \<le> w" "10 \<le> h" "0 \<le> x" "0 \<le> y"
      "x + w \<le> real (img_width img)" "y + h \<le> real (img_height img)"
    by (rule cropWithinBounds_finite)
  then show "0 < real (img_width img)" and "0 < real (img_height img)" by linarith+
qed

text \<open>
  The step of \<open>setCrop\<close> keeps the bounds for a top or left edit with any value, and for a
  bottom or right edit with a value that is not negative.
\<close>

lemma nextCrop_keeps_bounds:
  assumes "cropWithinBounds img c" and "isNaN val = False"
    and "ty = Top \<or> ty = Left \<or> Fin 0 \<le> val"
  shows "cropWithinBounds img (nextCrop img ty val c)"
proof -
  from assms(1) obtain x y w h
    where c: "c = \<lparr>crop_x = Fin x, crop_y = Fin y, crop_width = Fin w, crop_height = Fin h\<rparr>"
      and b: "10 \<le> w" "10 \<le> h" "0 \<le> x" "0 \<le> y"
        "x + w \<le> real (img_width img)" "y + h \<le> real (img_height img)"
    by (rule cropWithinBounds_finite)
  show ?thesis
    using assms(2,3) b unfolding c
    by (cases val; cases ty) (auto simp: cropWithinBounds_def nextCrop_def isNaN_def Let_def)
qed

lemma parseInputValue_not_NaN:
  assumes "0 < m"
  shows "isNaN (parseInputValue st s (Fin m)) = False"
proof (cases "isNaN (asDouble (parseFloat s))")
  case True
  then show ?thesis by (simp add: parseInputValue_def isNaN_def)
next
  case False
  then have n: "isNaN (asDouble (parseFloat s)) = False" by simp
  then have "isNaN (asDouble (parseFloat s) / Fin 100) = False"
    by (rule divide_100_not_NaN)
  then have "isNaN (asDouble (asDouble (parseFloat s) / Fin 100)) = False"
    by (rule asDouble_not_NaN)
  with assms have "isNaN (asDouble (asDouble (parseFloat s) / Fin 100) * Fin m) = False"
    by (rule times_pos_not_NaN)
  then have "isNaN (asDouble (asDouble (asDouble (parseFloat s) / Fin 100) * Fin m)) = False"
    by (rule asDouble_not_NaN)
  then have "isNaN (Math_round (asDouble (asDouble (asDouble (parseFloat s) / Fin 100) * Fin m)))
      = False"
    by (rule Math_round_not_NaN)
  moreover have "isNaN (Math_round (asDouble (parseFloat s))) = False"
    using n by (rule Math_round_not_NaN)
  ultimately show ?thesis
    using n by (simp add: parseInputValue_def Let_def)
qed

lemma parseInputValue_not_negative:
  assumes "0 < m" and "isNaN (parseFloat s) \<or> Fin 0 \<le> parseFloat s"
  shows "Fin 0 \<le> parseInputValue st s (Fin m)"
proof (cases "isNaN (asDouble (parseFloat s))")
  case True
  then show ?thesis by (simp add: parseInputValue_def isNaN_def)
next
  case False
  then have "isNaN (parseFloat s) = False" by (simp add: asDouble_NaN)
  with assms(2) have "Fin 0 \<le> parseFloat s" by simp
  then have p: "Fin 0 \<le> asDouble (parseFloat s)" by (rule asDouble_nonneg)
  then have "Fin 0 \<le> asDouble (parseFloat s) / Fin 100" by (rule divide_100_nonneg)
  then have "Fin 0 \<le> asDouble (asDouble (parseFloat s) / Fin 100)" by (rule asDouble_nonneg)
  with assms(1) have "Fin 0 \<le> asDouble (asDouble (parseFloat s) / Fin 100) * Fin m"
    by (rule times_pos_nonneg)
  then have "Fin 0 \<le> asDouble (asDouble (asDouble (parseFloat s) / Fin 100) * Fin m)"
    by (rule asDouble_nonneg)
  then have "Fin 0 \<le> Math_round (asDouble (asDouble (asDouble (parseFloat s) / Fin 100) * Fin m))"
    by (rule Math_round_nonneg)
  moreover have "Fin 0 \<le> Math_round (asDouble (parseFloat s))"
    using p by (rule Math_round_nonneg)
  ultimately show ?thesis
    using False by (simp add: parseInputValue_def Let_def)
qed

lemma updateCropInset_keeps_bounds:
  assumes "imageObj st = Some img" and "cropWithinBounds img (crop st)"
    and "inwardEdit (ty, s)"
  shows "cropWithinBounds img (crop (updateCropInset ty s st))"
proof -
  have W: "0 < real (img_width img)" and H: "0 < real (img_height img)"
    using assms(2) by (rule cropWithinBounds_image_size)+
  have n: "isNaN (insetValue st img ty s) = False"
    using W H by (simp add: insetValue_def parseInputValue_not_NaN)
  have "ty = Top \<or> ty = Left \<or> Fin 0 \<le> insetValue st img ty s"
    using assms(3) W H
    by (auto simp: inwardEdit_def insetValue_def intro: parseInputValue_not_negative)
  with assms(2) n have "cropWithinBounds img (nextCrop img ty (insetValue st img ty s) (crop st))"
    by (rule nextCrop_keeps_bounds)
  with assms(1) show ?thesis by (simp add: updateCropInset_def)
qed

lemma updateCropInset_imageObj: "imageObj (updateCropInset ty s st) = imageObj st"
  by (simp add: updateCropInset_def split: option.splits)

text \<open>Any number of such edits, in pixel or percent mode, keeps the crop within bounds.\<close>

lemma applyEdits_keeps_bounds:
  assumes "imageObj st = Some img" and "cropWithinBounds img (crop st)"
    and "list_all inwardEdit es"
  shows "cropWithinBounds img (crop (applyEdits es st))"
  using assms
proof (induction es arbitrary: st)
  case Nil
  then show ?case by simp
next
  case (Cons e es)
  have "cropWithinBounds img (crop (updateCropInset (fst e) (snd e) st))"
    using Cons.prems by (intro updateCropInset_keeps_bounds) simp_all
  moreover have "imageObj (updateCropInset (fst e) (snd e) st) = Some img"
    using Cons.prems(1) by (simp add: updateCropInset_imageObj)
  ultimately show ?case
    using Cons.IH Cons.prems(3) by simp
qed

text \<open>
  \<^bold>\<open>C1\<close> at its failing input. The sample session has the crop \<open>(0, 0, 1000, 700)\<close> in the
  image of 1000 by 800 pixels, within bounds. The text \<open>-5\<close> in the field of the bottom
  inset, in pixel mode, sets the crop height to 805: the crop reaches 5 pixels below the
  image and the bounds no longer hold. The top and left edits clamp a negative value to
  0; the bottom and right edits only keep the size from falling under 10.
\<close>

theorem negative_bottom_inset_leaves_image:
  "imageObj sampleLoaded = Some sampleImage
   \<and> usePercent sampleLoaded = False
   \<and> cropWithinBounds sampleImage (crop sampleLoaded)
   \<and> crop (updateCropInset Bottom (str ''-5'') sampleLoaded)
       = \<lparr>crop_x = Fin 0, crop_y = Fin 0, crop_width = Fin 1000, crop_height = Fin 805\<rparr>
   \<and> crop_y (crop (updateCropInset Bottom (str ''-5'') sampleLoaded))
       + crop_height (crop (updateCropInset Bottom (str ''-5'') sampleLoaded))
       = Fin 805
   \<and> Fin (real (img_height sampleImage)) = Fin 800
   \<and> cropWithinBounds sampleImage (crop (updateCropInset Bottom (str ''-5'') sampleLoaded))
       = False"
proof -
  have "toDouble (real_of_int (- 5)) = Fin (real_of_int (- 5))"
    by (rule toDouble_int) simp
  then have "parseInputValue sampleLoaded (str ''-5'') (Fin 800) = Fin (- 5)"
    by (simp add: parseInputValue_def isNaN_def parseFloat_examples sampleLoaded_eq
        initialEditor_def)
  then show ?thesis
    by (simp add: sampleLoaded_eq initialEditor_def sampleImage_def cropWithinBounds_def
        updateCropInset_def nextCrop_def insetValue_def)
qed

text \<open>What the field of the bottom inset shows after an edit that is not clamped.\<close>

lemma bottom_display_after_edit:
  assumes "imageObj st = Some img" and "0 < img_height img"
    and "crop_y (crop st) = Fin y"
    and "parseInputValue st s (Fin (real (img_height img))) = Fin n"
    and "10 \<le> real (img_height img) - y - n"
  shows "bottomInsetDisplay (updateCropInset Bottom s st)
    = (if usePercent st
       then toFixed_1 (asDouble (asDouble (Fin n / Fin (real (img_height img))) * Fin 100))
       else Math_round (Fin n))"
  using assms
  by (simp add: bottomInsetDisplay_def updateCropInset_def nextCrop_def insetValue_def
      getDisplayValue_def Let_def heightOr1_def Math_max_Fin
      del: toFixed_1.simps Math_max.simps Math_round.simps asDouble.simps)

text \<open>
  Percent to pixels: the three roundings to double move the product by less than
  \<open>6 / 10\<^sup>1\<^sup>5\<close> of the image height before it is rounded to a whole pixel.
\<close>

lemma percent_to_pixels:
  assumes "usePercent st" and "parseFloat s = Fin v" and "\<bar>v\<bar> \<le> 1000"
    and "1 \<le> H" and "H \<le> 2 ^ 31"
  obtains n :: int
  where "parseInputValue st s (Fin H) = Fin (real_of_int n)"
    and "\<bar>real_of_int n - v / 100 * H\<bar> \<le> 1 / 2 + H * (3 / 500000000000000)"
proof -
  have "\<bar>v\<bar> \<le> 2 ^ 1023" using assms(3) by (rule order_trans) simp
  then obtain a where a: "toDouble v = Fin a"
    and ea: "\<bar>a - v\<bar> \<le> \<bar>v\<bar> / 2 ^ 53 + 1 / 2 ^ 1075"
    by (rule toDouble_error)
  have "\<bar>v\<bar> / 2 ^ 53 \<le> 1000 / 2 ^ 53"
    using assms(3) by (intro divide_right_mono) simp_all
  moreover have "(1000 / 2 ^ 53 + 1 / 2 ^ 1075 :: real) \<le> 1 / 5000000000000" by simp
  ultimately have ea': "\<bar>a - v\<bar> \<le> 1 / 5000000000000" using ea by linarith
  have "\<bar>a / 100\<bar> = \<bar>a\<bar> / 100" by simp
  then have a100: "\<bar>a / 100\<bar> \<le> 11" using ea' assms(3) by linarith
  then have "\<bar>a / 100\<bar> \<le> 2 ^ 1023" by (rule order_trans) simp
  then obtain b where b: "toDouble (a / 100) = Fin b"
    and eb: "\<bar>b - a / 100\<bar> \<le> \<bar>a / 100\<bar> / 2 ^ 53 + 1 / 2 ^ 1075"
    by (rule toDouble_error)
  have "\<bar>a / 100\<bar> / 2 ^ 53 \<le> 11 / 2 ^ 53"
    using a100 by (intro divide_right_mono) simp_all
  moreover have "(11 / 2 ^ 53 + 1 / 2 ^ 1075 :: real) \<le> 1 / 500000000000000" by simp
  ultimately have eb': "\<bar>b - a / 100\<bar> \<le> 1 / 500000000000000" using eb by linarith
  have bv: "\<bar>b - v / 100\<bar> \<le> 1 / 250000000000000" using eb' ea' by linarith
  have b11: "\<bar>b\<bar> \<le> 11" using bv assms(3) by linarith
  have H0: "0 \<le> H" using assms(4) by simp
  have bH: "\<bar>b * H\<bar> \<le> 11 * H"
    using b11 H0 by (simp add: abs_mult mult_right_mono)
  also have "\<dots> \<le> 11 * 2 ^ 31" using assms(5) by simp
  also have "\<dots> \<le> (2 ^ 1023 :: real)" by simp
  finally obtain c where c: "toDouble (b * H) = Fin c"
    and ec: "\<bar>c - b * H\<bar> \<le> \<bar>b * H\<bar> / 2 ^ 53 + 1 / 2 ^ 1075"
    by (rule toDouble_error)
  have "\<bar>b * H\<bar> / 2 ^ 53 \<le> 11 * H / 2 ^ 53"
    using bH by (intro divide_right_mono) simp_all
  moreover have "11 * H / 2 ^ 53 + 1 / 2 ^ 1075 \<le> H * (1 / 500000000000000)"
    using assms(4) by simp
  ultimately have ec': "\<bar>c - b * H\<bar> \<le> H * (1 / 500000000000000)" using ec by linarith
  have "b * H - v / 100 * H = (b - v / 100) * H"
    by (simp add: left_diff_distrib)
  then have "\<bar>b * H - v / 100 * H\<bar> = \<bar>b - v / 100\<bar> * \<bar>H\<bar>"
    by (simp only: abs_mult)
  also have "\<bar>H\<bar> = H" using H0 by simp
  finally have "\<bar>b * H - v / 100 * H\<bar> = \<bar>b - v / 100\<bar> * H" .
  also have "\<dots> \<le> 1 / 250000000000000 * H"
    using bv H0 by (rule mult_right_mono)
  finally have "\<bar>b * H - v / 100 * H\<bar> \<le> H * (1 / 250000000000000)" by simp
  with ec' have cv: "\<bar>c - v / 100 * H\<bar> \<le> H * (3 / 500000000000000)" by linarith
  define n where "n = \<lfloor>c + 1 / 2\<rfloor>"
  have "\<bar>real_of_int n - c\<bar> \<le> 1 / 2" unfolding n_def by (rule round_half_error)
  with cv have "\<bar>real_of_int n - v / 100 * H\<bar> \<le> 1 / 2 + H * (3 / 500000000000000)" by linarith
  moreover have "parseInputValue st s (Fin H) = Fin (real_of_int n)"
    using assms(1,2) a b c by (simp add: parseInputValue_def isNaN_def n_def)
  ultimately show ?thesis using that by blast
qed

text \<open>
  Pixels to percent: the two roundings to double move the percentage by less than
  \<open>4 / 10\<^sup>1\<^sup>3\<close>.
\<close>

lemma pixels_to_percent:
  assumes "1 \<le> H" and "\<bar>m\<bar> \<le> 12 * H"
  obtains x where "asDouble (asDouble (Fin m / Fin H) * Fin 100) = Fin x"
    and "\<bar>x - m / H * 100\<bar> \<le> 1 / 2500000000000"
proof -
  have H: "0 < H" using assms(1) by simp
  have q: "\<bar>m / H\<bar> \<le> 12"
    using assms(2) H by (simp add: abs_divide divide_le_eq)
  then have "\<bar>m / H\<bar> \<le> 2 ^ 1023" by (rule order_trans) simp
  then obtain d where d: "toDouble (m / H) = Fin d"
    and ed: "\<bar>d - m / H\<bar> \<le> \<bar>m / H\<bar> / 2 ^ 53 + 1 / 2 ^ 1075"
    by (rule toDouble_error)
  have "\<bar>m / H\<bar> / 2 ^ 53 \<le> 12 / 2 ^ 53"
    using q by (intro divide_right_mono) simp_all
  moreover have "(12 / 2 ^ 53 + 1 / 2 ^ 1075 :: real) \<le> 1 / 500000000000000" by simp
  ultimately have ed': "\<bar>d - m / H\<bar> \<le> 1 / 500000000000000" using ed by linarith
  have "\<bar>d * 100\<bar> = \<bar>d\<bar> * 100" by (simp add: abs_mult)
  then have d13: "\<bar>d * 100\<bar> \<le> 1300" using ed' q by linarith
  then have "\<bar>d * 100\<bar> \<le> 2 ^ 1023" by (rule order_trans) simp
  then obtain x where x: "toDouble (d * 100) = Fin x"
    and ex: "\<bar>x - d * 100\<bar> \<le> \<bar>d * 100\<bar> / 2 ^ 53 + 1 / 2 ^ 1075"
    by (rule toDouble_error)
  have "\<bar>d * 100\<bar> / 2 ^ 53 \<le> 1300 / 2 ^ 53"
    using d13 by (intro divide_right_mono) simp_all
  moreover have "(1300 / 2 ^ 53 + 1 / 2 ^ 1075 :: real) \<le> 1 / 5000000000000" by simp
  ultimately have "\<bar>x - d * 100\<bar> \<le> 1 / 5000000000000" using ex by linarith
  with ed' have "\<bar>x - m / H * 100\<bar> \<le> 1 / 2500000000000" by linarith
  moreover have "asDouble (asDouble (Fin m / Fin H) * Fin 100) = Fin x"
    using H d x by simp
  ultimately show ?thesis using that by blast
qed

lemma scaled_error:
  fixes H n v e :: real
  assumes "0 < H" and "\<bar>n - v / 100 * H\<bar> \<le> 1 / 2 + H * e"
  shows "\<bar>n / H * 100 - v\<bar> \<le> 50 / H + 100 * e"
proof -
  have "n / H * 100 - v = (n - v / 100 * H) * (100 / H)"
    using assms(1) by (simp add: field_simps)
  then have "\<bar>n / H * 100 - v\<bar> = \<bar>n - v / 100 * H\<bar> * \<bar>100 / H\<bar>"
    by (simp only: abs_mult)
  also have "\<bar>100 / H\<bar> = 100 / H"
    using assms(1) by simp
  also have "\<bar>n - v / 100 * H\<bar> * (100 / H) \<le> (1 / 2 + H * e) * (100 / H)"
    using assms by (intro mult_right_mono) simp_all
  also have "\<dots> = 50 / H + 100 * e"
    using assms(1) by (simp add: field_simps)
  finally show ?thesis .
qed

text \<open>
  The roundings decide the result in cases like these. The text \<open>0.35\<close> in percent of 1000
  pixels is 3.4999999999999996 after the three roundings, hence 3 pixels, where the exact
  product 3.5 would give 4. And 247 pixels of 2000 are shown as 12.3 percent, the
  rounded value being 12.349999999999999, where the exact 12.35 would be shown as 12.4.
\<close>

lemma percent_of_1000_as_doubles:
  "parseInputValue (setUsePercent True sampleLoaded) (str ''0.35'') (Fin 1000) = Fin 3"
proof -
  have a: "toDouble (35 / 100) = Fin (6305039478318694 / 2 ^ 54)"
    using toDouble_eval [of "- 2" "35 / 100"] by (simp add: twoPow_def round_even_def)
  have b: "toDouble (6305039478318694 / 2 ^ 54 / 100) = Fin (8070450532247928 / 2 ^ 61)"
    using toDouble_eval [of "- 9" "6305039478318694 / 2 ^ 54 / 100"]
    by (simp add: twoPow_def round_even_def)
  have c: "toDouble (8070450532247928 / 2 ^ 61 * 1000) = Fin (7881299347898367 / 2 ^ 51)"
    using toDouble_eval [of 1 "8070450532247928 / 2 ^ 61 * 1000"]
    by (simp add: twoPow_def round_even_def)
  have v: "parseFloat (str ''0.35'') = Fin (35 / 100)"
    by (simp add: parseFloat_def str_def signPart_def isWhiteSpace_def isDigit_def
        digitsValue_def exponentPart_def scale10_def)
  show ?thesis
    using a b c by (simp add: parseInputValue_def isNaN_def v setUsePercent_def)
qed

lemma display_247_of_2000_as_doubles:
  "getDisplayValue (setUsePercent True tallLoaded) (Fin 247) (Fin 2000) = Fin (123 / 10)"
proof -
  have a: "toDouble (247 / 2000) = Fin (8899112863684100 / 2 ^ 56)"
    using toDouble_eval [of "- 4" "247 / 2000"] by (simp add: twoPow_def round_even_def)
  have b: "toDouble (8899112863684100 / 2 ^ 56 * 100) = Fin (6952431924753203 / 2 ^ 49)"
    using toDouble_eval [of 3 "8899112863684100 / 2 ^ 56 * 100"]
    by (simp add: twoPow_def round_even_def)
  show ?thesis
    using a b by (simp add: getDisplayValue_def setUsePercent_def)
qed

text \<open>
  \<^bold>\<open>C8\<close>, as the code has it. The image is between 1 and \<open>2\<^sup>3\<^sup>1\<close> pixels high, the top
  of the crop is a whole number of pixels inside the image, and the text of the bottom
  inset reads as the finite number \<open>v\<close>.

  In pixel mode, when the text is rounded by at most \<open>2\<^sup>5\<^sup>1\<close> in magnitude and the edit is
  not clamped by the minimum height of 10, the field reads back the double nearest to
  \<open>v\<close>, rounded to an integer; so it reads back exactly \<open>v\<close> when \<open>v\<close> is an integer.

  In percent mode, when \<open>v\<close> is at most 1000 in magnitude and the requested inset leaves
  at least 11 pixels of height, the field reads back a value within
  \<open>50 / imageHeight + 0.05 + 1 / 10\<^sup>9\<close> of \<open>v\<close>, so within 0.1 when the image is more
  than 1000 pixels high. The term \<open>1 / 10\<^sup>9\<close> covers the five roundings to double.
\<close>

theorem bottom_inset_round_trip:
  assumes "imageObj st = Some img"
    and "1 \<le> img_height img" and "img_height img < 2 ^ 31"
    and "crop_y (crop st) = Fin (real_of_int j)"
    and "0 \<le> j" and "j \<le> int (img_height img)"
    and "parseFloat s = Fin v"
  shows "(usePercent st = False \<and> toDouble v = Fin a \<and> \<bar>a\<bar> \<le> 2 ^ 51
        \<and> 10 \<le> int (img_height img) - j - \<lfloor>a + 1 / 2\<rfloor> \<longrightarrow>
      bottomInsetDisplay (updateCropInset Bottom s st) = Fin (real_of_int \<lfloor>a + 1 / 2\<rfloor>))
    \<and> (usePercent st = False \<and> v = real_of_int k \<and> \<bar>k\<bar> \<le> 2 ^ 51
        \<and> 10 \<le> int (img_height img) - j - k \<longrightarrow>
      bottomInsetDisplay (updateCropInset Bottom s st) = Fin v)
    \<and> (usePercent st \<and> \<bar>v\<bar> \<le> 1000
        \<and> 11 \<le> real (img_height img) - real_of_int j - v / 100 * real (img_height img) \<longrightarrow>
      (\<exists>d. bottomInsetDisplay (updateCropInset Bottom s st) = Fin d
          \<and> \<bar>d - v\<bar> \<le> 50 / real (img_height img) + 1 / 20 + 1 / 10 ^ 9))
    \<and> (usePercent st \<and> \<bar>v\<bar> \<le> 1000 \<and> 1000 < img_height img
        \<and> 11 \<le> real (img_height img) - real_of_int j - v / 100 * real (img_height img) \<longrightarrow>
      (\<exists>d. bottomInsetDisplay (updateCropInset Bottom s st) = Fin d \<and> \<bar>d - v\<bar> \<le> 1 / 10))"
proof -
  let ?H = "real (img_height img)"
  have H: "0 < img_height img" "1 \<le> ?H" "?H \<le> 2 ^ 31"
    using assms(2,3) by simp_all
  have px: "bottomInsetDisplay (updateCropInset Bottom s st) = Fin (real_of_int \<lfloor>a + 1 / 2\<rfloor>)"
    if "usePercent st = False" and "toDouble v = Fin a"
      and "10 \<le> int (img_height img) - j - \<lfloor>a + 1 / 2\<rfloor>" for a
  proof -
    have p: "parseInputValue st s (Fin ?H) = Fin (real_of_int \<lfloor>a + 1 / 2\<rfloor>)"
      using that(1,2) assms(7) by (simp add: parseInputValue_def isNaN_def)
    have "real_of_int 10 \<le> real_of_int (int (img_height img) - j - \<lfloor>a + 1 / 2\<rfloor>)"
      using that(3) by (simp only: of_int_le_iff)
    then have u: "10 \<le> ?H - real_of_int j - real_of_int \<lfloor>a + 1 / 2\<rfloor>" by simp
    show ?thesis
      using bottom_display_after_edit [OF assms(1) H(1) assms(4) p u] that(1)
      by (simp add: floor_int_plus_half)
  qed
  have pxi: "bottomInsetDisplay (updateCropInset Bottom s st) = Fin v"
    if "usePercent st = False" and "v = real_of_int k" and "\<bar>k\<bar> \<le> 2 ^ 51"
      and "10 \<le> int (img_height img) - j - k"
  proof -
    have "\<bar>k\<bar> < 2 ^ 53" using that(3) by simp
    then have "toDouble v = Fin (real_of_int k)"
      unfolding that(2) by (rule toDouble_int)
    moreover have "\<lfloor>real_of_int k + 1 / 2\<rfloor> = k" by (rule floor_int_plus_half)
    ultimately show ?thesis
      using px [of "real_of_int k"] that by simp
  qed
  have pc: "\<exists>d. bottomInsetDisplay (updateCropInset Bottom s st) = Fin d
      \<and> \<bar>d - v\<bar> \<le> 50 / ?H + 1 / 20 + 1 / 10 ^ 9"
    if hp: "usePercent st" and hv: "\<bar>v\<bar> \<le> 1000"
      and hu: "11 \<le> ?H - real_of_int j - v / 100 * ?H"
  proof -
    obtain n :: int where p: "parseInputValue st s (Fin ?H) = Fin (real_of_int n)"
      and en: "\<bar>real_of_int n - v / 100 * ?H\<bar> \<le> 1 / 2 + ?H * (3 / 500000000000000)"
      using hp assms(7) hv H(2,3) by (rule percent_to_pixels)
    have small: "?H * (3 / 500000000000000) \<le> 1 / 2" using H(3) by simp
    have u: "10 \<le> ?H - real_of_int j - real_of_int n"
      using en small hu by linarith
    have "\<bar>v / 100 * ?H\<bar> = \<bar>v / 100\<bar> * ?H" by (simp add: abs_mult)
    also have "\<dots> \<le> 10 * ?H"
      using hv by (intro mult_right_mono) simp_all
    finally have "\<bar>real_of_int n\<bar> \<le> 12 * ?H"
      using en small H(2) by linarith
    with H(2) obtain x
      where x: "asDouble (asDouble (Fin (real_of_int n) / Fin ?H) * Fin 100) = Fin x"
        and ex: "\<bar>x - real_of_int n / ?H * 100\<bar> \<le> 1 / 2500000000000"
      by (rule pixels_to_percent)
    obtain d where d: "toFixed_1 (Fin x) = Fin d" and ed: "\<bar>d - x\<bar> \<le> 1 / 20"
      by (rule toFixed_1_error)
    have "0 < ?H" using H(2) by simp
    then have "\<bar>real_of_int n / ?H * 100 - v\<bar> \<le> 50 / ?H + 100 * (3 / 500000000000000)"
      using en by (rule scaled_error)
    moreover have "(1 / 10 ^ 9 :: real) = 1 / 1000000000" by simp
    ultimately have "\<bar>d - v\<bar> \<le> 50 / ?H + 1 / 20 + 1 / 10 ^ 9"
      using ex ed by linarith
    moreover have "bottomInsetDisplay (updateCropInset Bottom s st) = Fin d"
      using bottom_display_after_edit [OF assms(1) H(1) assms(4) p u] hp x d
      by (simp del: toFixed_1.simps asDouble.simps)
    ultimately show ?thesis by blast
  qed
  have pk: "\<exists>d. bottomInsetDisplay (updateCropInset Bottom s st) = Fin d \<and> \<bar>d - v\<bar> \<le> 1 / 10"
    if hp: "usePercent st" and hv: "\<bar>v\<bar> \<le> 1000" and hb: "1000 < img_height img"
      and hu: "11 \<le> ?H - real_of_int j - v / 100 * ?H"
  proof -
    from pc hp hv hu obtain d
      where d: "bottomInsetDisplay (updateCropInset Bottom s st) = Fin d"
        and e: "\<bar>d - v\<bar> \<le> 50 / ?H + 1 / 20 + 1 / 10 ^ 9"
      by blast
    from hb have "1001 \<le> ?H" by simp
    then have "50 / ?H \<le> 50 / 1001" by (intro divide_left_mono) simp_all
    moreover have "(1 / 10 ^ 9 :: real) = 1 / 1000000000" by simp
    ultimately have "\<bar>d - v\<bar> \<le> 1 / 10" using e by linarith
    with d show ?thesis by blast
  qed
  show ?thesis
    using px pxi pc pk by blast
qed

lemma loaded_fields:
  "imageObj sampleLoaded = Some sampleImage"
  "crop sampleLoaded
     = \<lparr>crop_x = Fin 0, crop_y = Fin 0, crop_width = Fin 1000, crop_height = Fin 700\<rparr>"
  "usePercent sampleLoaded = False"
  "imageObj smallLoaded = Some \<lparr>img_width = 100, img_height = 100\<rparr>"
  "crop smallLoaded
     = \<lparr>crop_x = Fin 0, crop_y = Fin 0, crop_width = Fin 100, crop_height = Fin 100\<rparr>"
  "imageObj tallLoaded = Some \<lparr>img_width = 1000, img_height = 2000\<rparr>"
  "crop tallLoaded
     = \<lparr>crop_x = Fin 0, crop_y = Fin 0, crop_width = Fin 1000, crop_height = Fin 2000\<rparr>"
  by (simp_all add: sampleLoaded_eq smallLoaded_def tallLoaded_def imageOnload_no_text
      initialEditor_def)

lemma setUsePercent_fields:
  "imageObj (setUsePercent b st) = imageObj st"
  "crop (setUsePercent b st) = crop st"
  "usePercent (setUsePercent b st) = b"
  by (simp_all add: setUsePercent_def)

text \<open>
  In the sample session the text \<open>50\<close> reads back as 50 in pixel mode; in the image of
  2000 pixels height the text \<open>12.34\<close> reads back within 0.1 in percent mode.
\<close>

theorem bottom_inset_round_trip_witness:
  "imageObj sampleLoaded = Some sampleImage
   \<and> 1 \<le> img_height sampleImage \<and> img_height sampleImage < 2 ^ 31
   \<and> crop_y (crop sampleLoaded) = Fin (real_of_int 0)
   \<and> parseFloat (str ''50'') = Fin (real_of_int 50)
   \<and> usePercent sampleLoaded = False
   \<and> (10::int) \<le> int (img_height sampleImage) - 0 - 50
   \<and> bottomInsetDisplay (updateCropInset Bottom (str ''50'') sampleLoaded) = Fin 50
   \<and> usePercent (setUsePercent True tallLoaded)
   \<and> parseFloat (str ''12.34'') = Fin (1234 / 100)
   \<and> (11::real) \<le> 2000 - 0 - 1234 / 100 / 100 * 2000
   \<and> (\<exists>d. bottomInsetDisplay (updateCropInset Bottom (str ''12.34'') (setUsePercent True tallLoaded))
            = Fin d
          \<and> \<bar>d - 1234 / 100\<bar> \<le> 1 / 10)"
proof -
  have a: "imageObj sampleLoaded = Some sampleImage"
    and h: "1 \<le> img_height sampleImage" "img_height sampleImage < 2 ^ 31"
    and y: "crop_y (crop sampleLoaded) = Fin (real_of_int 0)"
    and j: "(0::int) \<le> 0" "0 \<le> int (img_height sampleImage)"
    and v: "parseFloat (str ''50'') = Fin 50"
    by (simp_all add: loaded_fields parseFloat_examples sampleImage_def)
  have a': "imageObj (setUsePercent True tallLoaded) = Some \<lparr>img_width = 1000, img_height = 2000\<rparr>"
    and h': "1 \<le> img_height \<lparr>img_width = 1000, img_height = 2000\<rparr>"
      "img_height \<lparr>img_width = 1000, img_height = 2000\<rparr> < 2 ^ 31"
    and y': "crop_y (crop (setUsePercent True tallLoaded)) = Fin (real_of_int 0)"
    and j': "(0::int) \<le> 0" "0 \<le> int (img_height \<lparr>img_width = 1000, img_height = 2000\<rparr>)"
    and v': "parseFloat (str ''12.34'') = Fin (1234 / 100)"
    by (simp_all add: loaded_fields setUsePercent_fields parseFloat_examples)
  show ?thesis
    using a h y v v'
      bottom_inset_round_trip [OF a h y j v, where k = 50]
      bottom_inset_round_trip [OF a' h' y' j' v']
    by (simp add: loaded_fields setUsePercent_fields sampleImage_def)
qed

text \<open>
  The claim as the specification states it fails in both modes. In pixel mode, in the
  sample session, the text \<open>795\<close> would leave a crop of 5 pixels; the height is clamped
  to 10 and the field reads back 790. In percent mode, in the image of 100 pixels
  height, the text \<open>10.4\<close> is rounded to 10 pixels and the field reads back 10.0, which
  is 0.4 away.
\<close>

theorem bottom_inset_round_trip_fails:
  "usePercent sampleLoaded = False
   \<and> parseFloat (str ''795'') = Fin 795
   \<and> bottomInsetDisplay (updateCropInset Bottom (str ''795'') sampleLoaded) = Fin 790
   \<and> usePercent (setUsePercent True smallLoaded)
   \<and> parseFloat (str ''10.4'') = Fin (104 / 10)
   \<and> bottomInsetDisplay (updateCropInset Bottom (str ''10.4'') (setUsePercent True smallLoaded))
       = Fin 10
   \<and> (1 / 10 :: real) < \<bar>10 - 104 / 10\<bar>"
proof -
  have "toDouble (real_of_int 795) = Fin (real_of_int 795)"
    by (rule toDouble_int) simp
  then have "parseInputValue sampleLoaded (str ''795'') (Fin 800) = Fin 795"
    by (simp add: parseInputValue_def isNaN_def parseFloat_examples loaded_fields)
  then have pixel: "bottomInsetDisplay (updateCropInset Bottom (str ''795'') sampleLoaded) = Fin 790"
    by (simp add: bottomInsetDisplay_def updateCropInset_def nextCrop_def insetValue_def
        getDisplayValue_def heightOr1_def loaded_fields sampleImage_def)
  let ?st = "setUsePercent True smallLoaded"
  let ?img = "\<lparr>img_width = 100, img_height = 100\<rparr>"
  have st: "imageObj ?st = Some ?img" "usePercent ?st" "crop_y (crop ?st) = Fin 0"
    by (simp_all add: setUsePercent_fields loaded_fields)
  have v: "parseFloat (str ''10.4'') = Fin (104 / 10)"
    by (simp add: parseFloat_examples)
  have v1000: "\<bar>104 / 10 :: real\<bar> \<le> 1000" and H: "(1::real) \<le> 100" "(100::real) \<le> 2 ^ 31"
    by simp_all
  obtain n :: int where p: "parseInputValue ?st (str ''10.4'') (Fin 100) = Fin (real_of_int n)"
    and en: "\<bar>real_of_int n - 104 / 10 / 100 * 100\<bar> \<le> 1 / 2 + 100 * (3 / 500000000000000)"
    using st(2) v v1000 H by (rule percent_to_pixels)
  have "real_of_int 9 < real_of_int n" and "real_of_int n < real_of_int 11"
    using en by linarith+
  then have "9 < n" and "n < 11" by (simp_all only: of_int_less_iff)
  then have n: "n = 10" by simp
  have p10: "parseInputValue ?st (str ''10.4'') (Fin (real (img_height ?img))) = Fin 10"
    using p n by simp
  have u: "(10::real) \<le> real (img_height ?img) - 0 - 10" by simp
  have h: "0 < img_height ?img" by simp
  have disp: "bottomInsetDisplay (updateCropInset Bottom (str ''10.4'') ?st)
      = toFixed_1 (asDouble (asDouble (Fin 10 / Fin 100) * Fin 100))"
    using bottom_display_after_edit [OF st(1) h st(3) p10 u] st(2)
    by (simp del: toFixed_1.simps asDouble.simps)
  have "\<bar>10 :: real\<bar> \<le> 12 * 100" by simp
  with H(1) obtain x where x: "asDouble (asDouble (Fin 10 / Fin 100) * Fin 100) = Fin x"
    and ex: "\<bar>x - 10 / 100 * 100\<bar> \<le> 1 / 2500000000000"
    by (rule pixels_to_percent)
  have ex': "\<bar>x - 10\<bar> \<le> 1 / 2500000000000" using ex by simp
  have "100 \<le> 10 * x + 1 / 2" and "10 * x + 1 / 2 < 101"
    using ex' by linarith+
  then have "\<lfloor>10 * x + 1 / 2\<rfloor> = 100"
    by (intro floor_unique) simp_all
  moreover have "(11::real) < 10 ^ 21" by simp
  then have "\<not> 10 ^ 21 \<le> \<bar>x\<bar>" and "\<not> x < 0"
    using ex' by linarith+
  ultimately have "toFixed_1 (Fin x) = Fin 10" by simp
  with disp x have percent: "bottomInsetDisplay (updateCropInset Bottom (str ''10.4'') ?st) = Fin 10"
    by (simp del: toFixed_1.simps asDouble.simps)
  show ?thesis
    using pixel percent by (simp add: loaded_fields setUsePercent_fields parseFloat_examples)
qed

section \<open>Image load: seeding from the scale text\<close>

lemma isToken_iff: "isToken c \<longleftrightarrow> \<not> isWhiteSpace c"
  by (simp add: isToken_def)

lemma trim_last_token:
  assumes "trim s \<noteq> []"
  shows "isToken (last (trim s))"
proof -
  let ?b = "dropWhile isWhiteSpace (rev (dropWhile isWhiteSpace s))"
  have t: "trim s = rev ?b" by (simp add: trim_def)
  with assms have b: "?b \<noteq> []" by simp
  then have "\<not> isWhiteSpace (hd ?b)" by (rule hd_dropWhile)
  moreover have "last (trim s) = hd ?b" using b unfolding t by (simp add: last_rev)
  ultimately show ?thesis by (simp add: isToken_iff)
qed

lemma remainder_not_empty:
  assumes "isToken (last t)" and "dropWhile isToken t \<noteq> []"
  shows "dropWhile isWhiteSpace (dropWhile isToken t) \<noteq> []"
proof
  let ?r = "dropWhile isToken t"
  assume "dropWhile isWhiteSpace ?r = []"
  then have all: "\<forall>c\<in>set ?r. isWhiteSpace c" by (simp add: dropWhile_eq_Nil_conv)
  have "t = takeWhile isToken t @ ?r" by simp
  then have "last t = last ?r" using assms(2) by (metis last_appendR)
  moreover have "last ?r \<in> set ?r" using assms(2) by simp
  ultimately have "isWhiteSpace (last t)" using all by simp
  with assms(1) show False by (simp add: isToken_iff)
qed

lemma hd_split_ws: "hd (split_ws s) = takeWhile isToken s"
  by (subst split_ws.simps) (simp add: Let_def)

lemma split_ws_not_empty: "split_ws s \<noteq> []"
  by (subst split_ws.simps) (simp add: Let_def)

lemma split_ws_single: "dropWhile isToken s = [] \<Longrightarrow> split_ws s = [takeWhile isToken s]"
  by (subst split_ws.simps) (simp add: Let_def del: dropWhile_eq_Nil_conv)

lemma split_ws_more:
  assumes "dropWhile isToken s \<noteq> []"
  shows "split_ws s
    = takeWhile isToken s # split_ws (dropWhile isWhiteSpace (dropWhile isToken s))"
proof -
  let ?r = "dropWhile isToken s"
  have "\<not> isToken (hd ?r)" using assms by (rule hd_dropWhile)
  then have "isWhiteSpace (hd ?r)" by (simp add: isToken_iff)
  then have "dropWhile isWhiteSpace ?r = dropWhile isWhiteSpace (tl ?r)"
    using assms by (cases ?r) simp_all
  then show ?thesis
    using assms by (subst split_ws.simps) (simp add: Let_def del: dropWhile_eq_Nil_conv)
qed

lemma split_ws_two:
  assumes "dropWhile isToken s \<noteq> []"
  shows "2 \<le> length (split_ws s)" and "split_ws s ! 0 = takeWhile isToken s"
    and "split_ws s ! 1 = takeWhile isToken (dropWhile isWhiteSpace (dropWhile isToken s))"
proof -
  let ?r = "dropWhile isWhiteSpace (dropWhile isToken s)"
  have e: "split_ws s = takeWhile isToken s # split_ws ?r"
    using assms by (rule split_ws_more)
  obtain p ps where p: "split_ws ?r = p # ps"
    using split_ws_not_empty [of ?r] by (cases "split_ws ?r") simp_all
  then have "p = takeWhile isToken ?r" using hd_split_ws [of ?r] by simp
  with e p show "2 \<le> length (split_ws s)" and "split_ws s ! 0 = takeWhile isToken s"
    and "split_ws s ! 1 = takeWhile isToken ?r"
    by simp_all
qed

lemma parseFloat_empty: "parseFloat [] = NaN"
  by (simp add: parseFloat_def signPart_def str_def)

text \<open>
  What the load does with a scale text, in terms of the specification's reading of it:
  the number seeds the known distance and, halved, the bar length; the unit that is
  seeded is the first token of the remainder.
\<close>

lemma imageOnload_with_text:
  "imageOnload img s (Some text) st =
     (case spec_parseScaleText text of
        None \<Rightarrow> imageOnload img s None st
      | Some nr \<Rightarrow> (imageOnload img s None st)
          \<lparr>calibration :=
             (calibration st)\<lparr>knownDistance := fst nr, unit := takeWhile isToken (snd nr)\<rparr>,
           settings :=
             (settings st)\<lparr>lengthUnit := takeWhile isToken (snd nr),
                           lengthValue := fst nr / Fin 2\<rparr>\<rparr>)"
proof (cases "text = []")
  case True
  then show ?thesis
    by (simp add: imageOnload_def spec_parseScaleText_def trim_def parseFloat_empty isNaN_def)
next
  case False
  let ?t = "trim text"
  show ?thesis
  proof (cases "dropWhile isToken ?t = []")
    case True
    then have "split_ws ?t = [takeWhile isToken ?t]" by (rule split_ws_single)
    with False True show ?thesis
      by (simp add: imageOnload_def spec_parseScaleText_def Let_def
          del: dropWhile_eq_Nil_conv)
  next
    case ne: False
    then have "?t \<noteq> []" by auto
    then have "isToken (last ?t)" by (rule trim_last_token)
    then have r: "dropWhile isWhiteSpace (dropWhile isToken ?t) \<noteq> []"
      using ne by (rule remainder_not_empty)
    show ?thesis
      using False r split_ws_two [OF ne]
      by (simp add: imageOnload_def spec_parseScaleText_def Let_def
          del: dropWhile_eq_Nil_conv)
  qed
qed

lemma spec_parseScaleText_examples:
  "spec_parseScaleText (str ''200 nm'') = Some (Fin 200, str ''nm'')"
  "spec_parseScaleText (str ''10 nm scale'') = Some (Fin 10, str ''nm scale'')"
  "spec_parseScaleText (str ''10x nm'') = Some (Fin 10, str ''nm'')"
  "spec_parseScaleText (str ''about 10'') = None"
  "spec_parseScaleText (str ''10'') = None"
  by (simp_all add: spec_parseScaleText_def trim_def str_def isToken_def isWhiteSpace_def
      parseFloat_def signPart_def isDigit_def digitsValue_def exponentPart_def scale10_def
      isNaN_def)

text \<open>
  \<^bold>\<open>C4\<close>, as the code has it. When the scale text reads as a number and a remainder, the
  load seeds the known distance with the number, the bar length with half of it, and
  both units with the first token of the remainder, which is the whole remainder when
  that holds no white space. When the text does not read so (no number at the start of
  the first token, or no second token) or when there is no text, calibration and
  settings are left as they were. When the service fails (the request is rejected, the
  response has no text, or the text is not JSON) the suggestion is the crop line 0
  without a scale text, and the load then keeps the whole image height and seeds
  nothing.
\<close>

theorem imageOnload_seeds_from_scale_text:
  "(spec_parseScaleText text = Some (n, remainder) \<longrightarrow>
      calibration (imageOnload img s (Some text) st)
        = (calibration st)\<lparr>knownDistance := n, unit := takeWhile isToken remainder\<rparr>
      \<and> settings (imageOnload img s (Some text) st)
        = (settings st)\<lparr>lengthUnit := takeWhile isToken remainder, lengthValue := n / Fin 2\<rparr>)
   \<and> (spec_parseScaleText text = Some (n, remainder) \<and> list_all isToken remainder \<longrightarrow>
      unit (calibration (imageOnload img s (Some text) st)) = remainder
      \<and> lengthUnit (settings (imageOnload img s (Some text) st)) = remainder)
   \<and> (spec_parseScaleText text = None \<longrightarrow>
      calibration (imageOnload img s (Some text) st) = calibration st
      \<and> settings (imageOnload img s (Some text) st) = settings st)
   \<and> calibration (imageOnload img s None st) = calibration st
   \<and> settings (imageOnload img s None st) = settings st
   \<and> analyzeSemImage JSON_parse Rejected = \<lparr>suggestedCropY = Fin 0, detectedScaleText = None\<rparr>
   \<and> analyzeSemImage JSON_parse (Response None)
       = \<lparr>suggestedCropY = Fin 0, detectedScaleText = None\<rparr>
   \<and> analyzeSemImage JSON_parse (Response (Some []))
       = \<lparr>suggestedCropY = Fin 0, detectedScaleText = None\<rparr>
   \<and> (JSON_parse body = None \<longrightarrow>
      analyzeSemImage JSON_parse (Response (Some body))
        = \<lparr>suggestedCropY = Fin 0, detectedScaleText = None\<rparr>)
   \<and> calibration (imageOnload img (suggestedCropY fallbackResult)
        (detectedScaleText fallbackResult) st) = calibration st
   \<and> settings (imageOnload img (suggestedCropY fallbackResult)
        (detectedScaleText fallbackResult) st) = settings st
   \<and> crop_height (crop (imageOnload img (suggestedCropY fallbackResult)
        (detectedScaleText fallbackResult) st)) = Fin (real (img_height img))"
proof -
  have some: "calibration (imageOnload img s (Some text) st)
        = (calibration st)\<lparr>knownDistance := n, unit := takeWhile isToken remainder\<rparr>
      \<and> settings (imageOnload img s (Some text) st)
        = (settings st)\<lparr>lengthUnit := takeWhile isToken remainder, lengthValue := n / Fin 2\<rparr>"
    if "spec_parseScaleText text = Some (n, remainder)"
    using that by (simp add: imageOnload_with_text)
  have whole: "takeWhile isToken remainder = remainder" if "list_all isToken remainder"
    using that by (simp add: takeWhile_eq_all_conv list_all_iff)
  have none: "calibration (imageOnload img s (Some text) st) = calibration st
      \<and> settings (imageOnload img s (Some text) st) = settings st"
    if "spec_parseScaleText text = None"
    using that by (simp add: imageOnload_with_text imageOnload_no_text)
  have service: "analyzeSemImage JSON_parse Rejected
        = \<lparr>suggestedCropY = Fin 0, detectedScaleText = None\<rparr>"
    "analyzeSemImage JSON_parse (Response None)
        = \<lparr>suggestedCropY = Fin 0, detectedScaleText = None\<rparr>"
    "analyzeSemImage JSON_parse (Response (Some []))
        = \<lparr>suggestedCropY = Fin 0, detectedScaleText = None\<rparr>"
    by (simp_all add: analyzeSemImage_def fallbackResult_def)
  have json: "analyzeSemImage JSON_parse (Response (Some body))
        = \<lparr>suggestedCropY = Fin 0, detectedScaleText = None\<rparr>"
    if "JSON_parse body = None"
    using that by (simp add: analyzeSemImage_def fallbackResult_def)
  have plain: "calibration (imageOnload img s None st) = calibration st"
    "settings (imageOnload img s None st) = settings st"
    by (simp_all add: imageOnload_no_text)
  have fallback: "calibration (imageOnload img (suggestedCropY fallbackResult)
        (detectedScaleText fallbackResult) st) = calibration st"
    "settings (imageOnload img (suggestedCropY fallbackResult)
        (detectedScaleText fallbackResult) st) = settings st"
    "crop_height (crop (imageOnload img (suggestedCropY fallbackResult)
        (detectedScaleText fallbackResult) st)) = Fin (real (img_height img))"
    by (simp_all add: fallbackResult_def imageOnload_no_text)
  show ?thesis
    using some whole none service json plain fallback by simp
qed

text \<open>
  The text \<open>200 nm\<close> seeds the known distance 200, the unit \<open>nm\<close> and the bar length 100;
  the text \<open>about 10\<close> seeds nothing; a service whose answer is not JSON gives the
  fallback.
\<close>

theorem imageOnload_seeds_from_scale_text_witness:
  "spec_parseScaleText (str ''200 nm'') = Some (Fin 200, str ''nm'')
   \<and> list_all isToken (str ''nm'')
   \<and> calibration (imageOnload sampleImage (Fin 700) (Some (str ''200 nm'')) initialEditor)
       = \<lparr>pixels = Fin 0, knownDistance = Fin 200, unit = str ''nm''\<rparr>
   \<and> lengthValue (settings
        (imageOnload sampleImage (Fin 700) (Some (str ''200 nm'')) initialEditor)) = Fin 100
   \<and> lengthUnit (settings
        (imageOnload sampleImage (Fin 700) (Some (str ''200 nm'')) initialEditor)) = str ''nm''
   \<and> spec_parseScaleText (str ''about 10'') = None
   \<and> calibration (imageOnload sampleImage (Fin 700) (Some (str ''about 10'')) initialEditor)
       = calibration initialEditor
   \<and> settings (imageOnload sampleImage (Fin 700) (Some (str ''about 10'')) initialEditor)
       = settings initialEditor
   \<and> (\<lambda>t. None) (str ''<html>'') = (None :: SemAnalysisResult option)
   \<and> analyzeSemImage (\<lambda>t. None) (Response (Some (str ''<html>'')))
       = \<lparr>suggestedCropY = Fin 0, detectedScaleText = None\<rparr>"
proof -
  have tok: "list_all isToken (str ''nm'')"
    by (simp add: str_def isToken_def isWhiteSpace_def)
  have unit_nm: "takeWhile isToken (str ''nm'') = str ''nm''"
    by (simp add: str_def isToken_def isWhiteSpace_def)
  show ?thesis
    using tok
      imageOnload_seeds_from_scale_text
        [of "str ''200 nm''" "Fin 200" "str ''nm''" sampleImage "Fin 700" initialEditor
          "\<lambda>t. None" "str ''<html>''"]
      imageOnload_seeds_from_scale_text
        [of "str ''about 10''" _ _ sampleImage "Fin 700" initialEditor]
    by (simp add: spec_parseScaleText_examples unit_nm initialEditor_def)
qed

text \<open>
  The claim as the specification states it fails. The text \<open>10 nm scale\<close> reads as the
  number 10 with the remainder \<open>nm scale\<close>, but the unit that is seeded is \<open>nm\<close>, the
  second token alone. And the text \<open>10x nm\<close>, whose first token is not a number, seeds
  the known distance 10 all the same, since \<open>parseFloat\<close> reads the digits at its start.
\<close>

theorem scale_text_unit_is_second_token:
  "spec_parseScaleText (str ''10 nm scale'') = Some (Fin 10, str ''nm scale'')
   \<and> unit (calibration
        (imageOnload sampleImage (Fin 700) (Some (str ''10 nm scale'')) initialEditor))
      = str ''nm''
   \<and> (str ''nm'' = str ''nm scale'') = False
   \<and> split_ws (trim (str ''10x nm'')) = [str ''10x'', str ''nm'']
   \<and> knownDistance (calibration
        (imageOnload sampleImage (Fin 700) (Some (str ''10x nm'')) initialEditor))
      = Fin 10"
proof -
  have a: "takeWhile isToken (str ''nm scale'') = str ''nm''"
    "takeWhile isToken (str ''nm'') = str ''nm''"
    by (simp_all add: str_def isToken_def isWhiteSpace_def)
  have b: "split_ws (trim (str ''10x nm'')) = [str ''10x'', str ''nm'']"
    by (simp add: split_ws.simps trim_def str_def isWhiteSpace_def isToken_def)
  have c: "(str ''nm'' = str ''nm scale'') = False"
    by (simp add: str_def)
  show ?thesis
    using b c
    by (simp add: imageOnload_with_text spec_parseScaleText_examples a)
qed

end
